theory Spec2Isabelle
  imports Main "HOL-Library.Word"
begin

section \<open>The file-backed journal: data model\<close>

text \<open>
  The Go package keeps chunk objects on the garbage-collected heap and links them through
  pointers (\<open>chunk.head.next\<close>, \<open>chunk.head.prev\<close>, \<open>chunks.first\<close>, \<open>chunks.last\<close>).
  The model is an explicit store: a list of chunk objects, a pointer being an index into it
  and \<open>nil\<close> being \<open>None\<close>.  In the source \<open>head.next\<close> leads to the older neighbour and
  \<open>head.prev\<close> to the newer one; \<open>chunks.first\<close> is the newest chunk and \<open>chunks.last\<close> the
  oldest (\<open>newChunk\<close> inserts at \<open>first\<close>, \<open>GetTailChunk\<close> hands out \<open>last\<close>).
\<close>

datatype JournalFileType = Head | Rest

datatype error =
    AlreadyDisposed
  | NotAllWritten
  | MultipleHeads
  | HeadNotNewest
  | NotADirectory
  | OtherPluginUsesPath
  | MalformedPath
  | ENOENT
  | EEXIST
  | ErrClosed

datatype panic = NilDereference | RefcountNegative | SliceOutOfRange

record FileJournalChunk =
  head_next :: "nat option"
  head_prev :: "nat option"
  Path :: string
  Type :: JournalFileType
  TSuffix :: string
  Timestamp :: "64 word"
  UniqueId :: string
  refcount :: "32 word"

record FileJournalChunkDequeue =
  dq_first :: "nat option"
  dq_last :: "nat option"
  dq_count :: int

record FileJournal =
  key :: string
  chunks :: FileJournalChunkDequeue
  writer :: "nat option"
  position :: "64 word"
  newChunkListeners :: "nat list"
  flushListeners :: "nat list"

record FileJournalChunkWrapper =
  chunk :: "nat option"
  ownershipTaken :: "64 word"

subsection \<open>The file system\<close>

text \<open>
  Directory entries map a path to an inode, inodes carry the bytes, and an open
  \<open>os.File\<close> is an entry of the table \<open>handles\<close>.  A file that is removed while it is
  open keeps its inode, as on POSIX.  The operations fail exactly where the model can
  tell: a missing path, an existing path under \<open>O_EXCL\<close>, a closed file.  There are no
  directories and no permissions, and a write stores all its bytes: the short write that
  \<open>Write\<close> answers with "not all data could be written" does not occur here.
\<close>

record filesys =
  names :: "string \<rightharpoonup> nat"
  contents :: "nat \<Rightarrow> string"
  handles :: "nat \<rightharpoonup> nat"
  ninode :: nat
  nhandle :: nat

definition os_OpenFile_create_excl :: "filesys \<Rightarrow> string \<Rightarrow> error + (nat \<times> filesys)" where
  "os_OpenFile_create_excl d p =
     (case names d p of
        Some i \<Rightarrow> Inl EEXIST
      | None \<Rightarrow>
          Inr (nhandle d,
               d\<lparr>names := (names d)(p \<mapsto> ninode d),
                 contents := (contents d)(ninode d := []),
                 handles := (handles d)(nhandle d \<mapsto> ninode d),
                 ninode := Suc (ninode d),
                 nhandle := Suc (nhandle d)\<rparr>))"

definition os_OpenFile_append :: "filesys \<Rightarrow> string \<Rightarrow> error + (nat \<times> filesys)" where
  "os_OpenFile_append d p =
     (case names d p of
        None \<Rightarrow> Inl ENOENT
      | Some i \<Rightarrow>
          Inr (nhandle d,
               d\<lparr>handles := (handles d)(nhandle d \<mapsto> i), nhandle := Suc (nhandle d)\<rparr>))"

definition os_OpenFile_rdonly :: "filesys \<Rightarrow> string \<Rightarrow> error + nat" where
  "os_OpenFile_rdonly d p = (case names d p of None \<Rightarrow> Inl ENOENT | Some i \<Rightarrow> Inr i)"

definition file_Write :: "filesys \<Rightarrow> nat \<Rightarrow> string \<Rightarrow> error + (nat \<times> filesys)" where
  "file_Write d h bs =
     (case handles d h of
        None \<Rightarrow> Inl ErrClosed
      | Some i \<Rightarrow> Inr (length bs, d\<lparr>contents := (contents d)(i := contents d i @ bs)\<rparr>))"

definition file_Close :: "filesys \<Rightarrow> nat \<Rightarrow> error + filesys" where
  "file_Close d h =
     (case handles d h of
        None \<Rightarrow> Inl ErrClosed
      | Some i \<Rightarrow> Inr (d\<lparr>handles := (handles d)(h := None)\<rparr>))"

definition file_Seek_end :: "filesys \<Rightarrow> nat \<Rightarrow> error + 64 word" where
  "file_Seek_end d h =
     (case handles d h of
        None \<Rightarrow> Inl ErrClosed
      | Some i \<Rightarrow> Inr (of_nat (length (contents d i))))"

definition os_Remove :: "filesys \<Rightarrow> string \<Rightarrow> error + filesys" where
  "os_Remove d p =
     (case names d p of
        None \<Rightarrow> Inl ENOENT
      | Some i \<Rightarrow> Inr (d\<lparr>names := (names d)(p := None)\<rparr>))"

definition os_Rename :: "filesys \<Rightarrow> string \<Rightarrow> string \<Rightarrow> error + filesys" where
  "os_Rename d old new =
     (case names d old of
        None \<Rightarrow> Inl ENOENT
      | Some i \<Rightarrow> Inr (d\<lparr>names := ((names d)(old := None))(new \<mapsto> i)\<rparr>))"

subsection \<open>The state\<close>

text \<open>
  One journal of a group, the chunk objects of the heap, the disk, and the fields of the
  group the journal reads (\<open>maxSize\<close>, \<open>pathPrefix\<close>, \<open>pathSuffix\<close>).
\<close>

record world =
  store :: "FileJournalChunk list"
  disk :: filesys
  journal :: FileJournal
  maxSize :: "64 word"
  pathPrefix :: string
  pathSuffix :: string

definition add_refcount :: "world \<Rightarrow> nat \<Rightarrow> 32 word \<Rightarrow> world" where
  \<comment> \<open>\<open>atomic.AddInt32(&chunk.refcount, n)\<close>\<close>
  "add_refcount w c n =
     w\<lparr>store := (store w)[c := (store w ! c)\<lparr>refcount := refcount (store w ! c) + n\<rparr>]\<rparr>"

definition set_head_next :: "world \<Rightarrow> nat \<Rightarrow> nat option \<Rightarrow> world" where
  "set_head_next w c v = w\<lparr>store := (store w)[c := (store w ! c)\<lparr>head_next := v\<rparr>]\<rparr>"

definition set_head_prev :: "world \<Rightarrow> nat \<Rightarrow> nat option \<Rightarrow> world" where
  "set_head_prev w c v = w\<lparr>store := (store w)[c := (store w ! c)\<lparr>head_prev := v\<rparr>]\<rparr>"

definition set_first :: "world \<Rightarrow> nat option \<Rightarrow> world" where
  "set_first w v = w\<lparr>journal := (journal w)\<lparr>chunks := (chunks (journal w))\<lparr>dq_first := v\<rparr>\<rparr>\<rparr>"

definition set_last :: "world \<Rightarrow> nat option \<Rightarrow> world" where
  "set_last w v = w\<lparr>journal := (journal w)\<lparr>chunks := (chunks (journal w))\<lparr>dq_last := v\<rparr>\<rparr>\<rparr>"

definition add_count :: "world \<Rightarrow> int \<Rightarrow> world" where
  "add_count w n =
     w\<lparr>journal := (journal w)\<lparr>chunks := (chunks (journal w))
          \<lparr>dq_count := dq_count (chunks (journal w)) + n\<rparr>\<rparr>\<rparr>"

abbreviation first_chunk :: "world \<Rightarrow> nat option" where
  "first_chunk w \<equiv> dq_first (chunks (journal w))"

abbreviation last_chunk :: "world \<Rightarrow> nat option" where
  "last_chunk w \<equiv> dq_last (chunks (journal w))"

section \<open>Reference counting\<close>

text \<open>
  The block of \<open>deleteRef\<close> under \<open>journal.chunks.mtx\<close>: the chunk is taken out of the
  list.  Both neighbours are read from the chunk at that moment.
\<close>

definition unlink_chunk :: "world \<Rightarrow> nat \<Rightarrow> world" where
  "unlink_chunk w c =
     (let prevChunk = head_prev (store w ! c);
          nextChunk = head_next (store w ! c);
          w1 = (case prevChunk of
                  None \<Rightarrow> set_first w nextChunk
                | Some p \<Rightarrow> set_head_next w p nextChunk);
          w2 = (case nextChunk of
                  None \<Rightarrow> set_last w1 prevChunk
                | Some n \<Rightarrow> set_head_prev w1 n prevChunk)
      in add_count w2 (- 1))"

text \<open>The tail of \<open>deleteRef\<close> once the newer neighbour has been dealt with.\<close>

definition remove_and_unlink :: "world \<Rightarrow> nat \<Rightarrow> panic + (error option \<times> bool \<times> world)" where
  "remove_and_unlink w c =
     (case os_Remove (disk w) (Path (store w ! c)) of
        Inl e \<Rightarrow> Inr (Some e, False, add_refcount w c 1)
      | Inr d \<Rightarrow> Inr (None, True, unlink_chunk (w\<lparr>disk := d\<rparr>) c))"

text \<open>
  \<open>deleteRef\<close>.  The decrement reaches zero exactly when the count was one; the recursion
  then goes to \<open>chunk.head.prev\<close> (the source's comment: "first propagate to newer chunk").
  A pointer always refers to an object in Go; an index outside the store has no
  counterpart there and is given the outcome of a nil dereference.
\<close>

function deleteRef :: "world \<Rightarrow> nat \<Rightarrow> panic + (error option \<times> bool \<times> world)" where
  "deleteRef w c =
     (if \<not> c < length (store w) then Inl NilDereference
      else if refcount (store (add_refcount w c (- 1)) ! c) = 0 then
        (case head_prev (store (add_refcount w c (- 1)) ! c) of
           None \<Rightarrow> remove_and_unlink (add_refcount w c (- 1)) c
         | Some prevChunk \<Rightarrow>
             (case deleteRef (add_refcount w c (- 1)) prevChunk of
                Inl pn \<Rightarrow> Inl pn
              | Inr (Some err, destroyed, w') \<Rightarrow> Inr (Some err, False, add_refcount w' c 1)
              | Inr (None, destroyed, w') \<Rightarrow> remove_and_unlink w' c))
      else if sint (refcount (store (add_refcount w c (- 1)) ! c)) < 0 then Inl RefcountNegative
      else Inr (None, False, add_refcount w c (- 1)))"
  by pat_completeness auto
termination
proof (relation "measure (\<lambda>(w, c). length (filter (\<lambda>ch. refcount ch = 1) (store w)))")
  show "wf (measure (\<lambda>(w, c). length (filter (\<lambda>ch. refcount ch = 1) (store w))))"
    by simp
next
  fix w :: world and c prevChunk :: nat
  assume c: "\<not> \<not> c < length (store w)"
    and z: "refcount (store (add_refcount w c (- 1)) ! c) = 0"
  from c z have one: "refcount (store w ! c) = 1"
    by (simp add: add_refcount_def)
  have less: "length (filter P (xs[i := v])) < length (filter P xs)"
    if "i < length xs" "P (xs ! i)" "\<not> P v"
    for P :: "FileJournalChunk \<Rightarrow> bool" and xs i v
    using that
  proof (induction xs arbitrary: i)
    case Nil
    then show ?case by simp
  next
    case (Cons x xs)
    show ?case
    proof (cases i)
      case 0
      with Cons.prems show ?thesis
        by (simp add: le_imp_less_Suc)
    next
      case (Suc k)
      with Cons.prems Cons.IH [of k] show ?thesis by simp
    qed
  qed
  have "length (filter (\<lambda>ch. refcount ch = 1)
          ((store w)[c := (store w ! c)\<lparr>refcount := refcount (store w ! c) + (- 1)\<rparr>]))
        < length (filter (\<lambda>ch. refcount ch = 1) (store w))"
    using c one by (intro less) simp_all
  then show "((add_refcount w c (- 1), prevChunk), (w, c))
      \<in> measure (\<lambda>(w, c). length (filter (\<lambda>ch. refcount ch = 1) (store w)))"
    by (simp add: add_refcount_def)
qed

declare deleteRef.simps [simp del]

section \<open>Chunk handles\<close>

definition newChunkWrapper :: "world \<Rightarrow> nat \<Rightarrow> FileJournalChunkWrapper \<times> world" where
  "newChunkWrapper w c = (\<lparr>chunk = Some c, ownershipTaken = 0\<rparr>, add_refcount w c 1)"

definition GetReader :: "FileJournalChunkWrapper \<Rightarrow> world \<Rightarrow> error + nat" where
  "GetReader wrapper w =
     (case chunk wrapper of
        None \<Rightarrow> Inl AlreadyDisposed
      | Some c \<Rightarrow> os_OpenFile_rdonly (disk w) (Path (store w ! c)))"

text \<open>
  \<open>GetNextChunk\<close> and \<open>GetTailChunk\<close> return the interface \<open>ik.JournalChunk\<close>. A value of an
  interface type is \<open>nil\<close> only when it holds no dynamic type. Both methods return a variable of
  type \<open>*FileJournalChunkWrapper\<close>, so what the caller receives always holds that type, with a
  pointer that may be \<open>nil\<close>: \<open>WrapperPointer None\<close>, which is not \<open>NilJournalChunk\<close>.
\<close>

datatype JournalChunk =
    NilJournalChunk
  | WrapperPointer "FileJournalChunkWrapper option"

definition GetNextChunk ::
  "FileJournalChunkWrapper \<Rightarrow> world \<Rightarrow> JournalChunk \<times> world" where
  "GetNextChunk wrapper w =
     (case chunk wrapper of
        None \<Rightarrow> (WrapperPointer None, w)
      | Some c \<Rightarrow>
          (case head_prev (store w ! c) of
             None \<Rightarrow> (WrapperPointer None, w)
           | Some p \<Rightarrow>
               (WrapperPointer (Some (fst (newChunkWrapper w p))), snd (newChunkWrapper w p))))"

text \<open>
  \<open>TakeOwnership\<close> drops the outcome of \<open>deleteRef\<close>; what remains of it is the state (and
  the panic, which nothing catches).
\<close>

definition TakeOwnership ::
  "FileJournalChunkWrapper \<Rightarrow> world \<Rightarrow> panic + (bool \<times> FileJournalChunkWrapper \<times> world)" where
  "TakeOwnership wrapper w =
     (case chunk wrapper of
        None \<Rightarrow> Inr (False, wrapper, w)
      | Some c \<Rightarrow>
          if ownershipTaken wrapper = 0 then
            (case deleteRef w c of
               Inl pn \<Rightarrow> Inl pn
             | Inr (err, destroyed, w') \<Rightarrow> Inr (True, wrapper\<lparr>ownershipTaken := 1\<rparr>, w'))
          else Inr (False, wrapper, w))"

definition Dispose ::
  "FileJournalChunkWrapper \<Rightarrow> world \<Rightarrow>
     panic + (error option \<times> FileJournalChunkWrapper \<times> world)" where
  "Dispose wrapper w =
     (case chunk wrapper of
        None \<Rightarrow> Inr (Some AlreadyDisposed, wrapper, w)
      | Some c \<Rightarrow>
          (case deleteRef w c of
             Inl pn \<Rightarrow> Inl pn
           | Inr (Some err, destroyed, w') \<Rightarrow> Inr (Some err, wrapper\<lparr>chunk := None\<rparr>, w')
           | Inr (None, destroyed, w') \<Rightarrow>
               if destroyed \<and> ownershipTaken wrapper \<noteq> 0 \<and> head_next (store w' ! c) = None then
                 (case head_prev (store w' ! c) of
                    None \<Rightarrow> Inr (None, wrapper\<lparr>chunk := None\<rparr>, w')
                  | Some prevChunk \<Rightarrow>
                      Inr (None, wrapper\<lparr>chunk := None\<rparr>, add_refcount w' prevChunk 1))
               else Inr (None, wrapper\<lparr>chunk := None\<rparr>, w')))"

section \<open>The path codec\<close>

text \<open>
  \<open>BuildJournalPath\<close>, \<open>BuildJournalPathWithTSuffix\<close> and \<open>DecodeJournalPath\<close> belong to
  another file of the package.  The journal only calls them, so they are parameters of the
  model; the clock (\<open>group.timeGetter()\<close>) and the random source
  (\<open>group.rand.Int63n(0xfff)\<close>) are parameters of the operation that reads them.
\<close>

record JournalPathInfo =
  info_Key :: string
  info_Type :: JournalFileType
  info_VariablePortion :: string
  info_TSuffix :: string
  info_Timestamp :: "64 word"
  info_UniqueId :: string

record codec =
  BuildJournalPath :: "string \<Rightarrow> JournalFileType \<Rightarrow> int \<Rightarrow> 64 word \<Rightarrow> JournalPathInfo"
  BuildJournalPathWithTSuffix :: "string \<Rightarrow> JournalFileType \<Rightarrow> string \<Rightarrow> string"
  DecodeJournalPath :: "string \<Rightarrow> error + JournalPathInfo"

section \<open>The journal\<close>

text \<open>
  A listener is external code.  What the journal itself does when it notifies is to make
  one handle per registered listener (\<open>newChunkWrapper\<close>, one reference each) and to log
  the listener's error; the listener sets are maps keyed by the function's address.
\<close>

definition notifyListeners :: "nat list \<Rightarrow> world \<Rightarrow> nat \<Rightarrow> world" where
  "notifyListeners ls w c = fold (\<lambda>l w'. snd (newChunkWrapper w' c)) ls w"

definition notifyFlushListeners :: "world \<Rightarrow> nat \<Rightarrow> world" where
  "notifyFlushListeners w c = notifyListeners (flushListeners (journal w)) w c"

definition notifyNewChunkListeners :: "world \<Rightarrow> nat \<Rightarrow> world" where
  "notifyNewChunkListeners w c = notifyListeners (newChunkListeners (journal w)) w c"

definition AddFlushListener :: "nat \<Rightarrow> world \<Rightarrow> world" where
  "AddFlushListener l w =
     w\<lparr>journal := (journal w)\<lparr>flushListeners := List.insert l (flushListeners (journal w))\<rparr>\<rparr>"

definition AddNewChunkListener :: "nat \<Rightarrow> world \<Rightarrow> world" where
  "AddNewChunkListener l w =
     w\<lparr>journal := (journal w)\<lparr>newChunkListeners := List.insert l (newChunkListeners (journal w))\<rparr>\<rparr>"

definition finalizeChunk :: "codec \<Rightarrow> world \<Rightarrow> nat \<Rightarrow> error option \<times> world" where
  "finalizeChunk cd w c =
     (let variablePortion =
            BuildJournalPathWithTSuffix cd (key (journal w)) Rest (TSuffix (store w ! c));
          newPath = pathPrefix w @ variablePortion @ pathSuffix w
      in case os_Rename (disk w) (Path (store w ! c)) newPath of
           Inl err \<Rightarrow> (Some err, w)
         | Inr d \<Rightarrow>
             (None,
              notifyFlushListeners
                (w\<lparr>disk := d,
                   store := (store w)[c := (store w ! c)\<lparr>Path := newPath, Type := Rest\<rparr>]\<rparr>) c))"

definition Purge :: "world \<Rightarrow> panic + (error option \<times> world)" where
  "Purge w =
     (case (case last_chunk w of
              None \<Rightarrow> Inr (None, False, w)
            | Some lastChunk \<Rightarrow> deleteRef w lastChunk) of
        Inl pn \<Rightarrow> Inl pn
      | Inr (Some err, destroyed, w') \<Rightarrow> Inr (Some err, w')
      | Inr (None, destroyed, w') \<Rightarrow>
          (case last_chunk w' of
             None \<Rightarrow> Inr (None, w')
           | Some lastChunk \<Rightarrow> Inr (None, add_refcount w' lastChunk 1)))"

text \<open>\<open>Flush(nil)\<close>: no visitor; the outcome of \<open>Purge\<close> is dropped.\<close>

definition Flush_nil :: "world \<Rightarrow> panic + (error option \<times> world)" where
  "Flush_nil w = (case Purge w of Inl pn \<Rightarrow> Inl pn | Inr (err, w') \<Rightarrow> Inr (None, w'))"

definition close_ignoring_error :: "filesys \<Rightarrow> nat \<Rightarrow> filesys" where
  "close_ignoring_error d h = (case file_Close d h of Inl err \<Rightarrow> d | Inr d' \<Rightarrow> d')"

definition remove_ignoring_error :: "filesys \<Rightarrow> string \<Rightarrow> filesys" where
  "remove_ignoring_error d p = (case os_Remove d p of Inl err \<Rightarrow> d | Inr d' \<Rightarrow> d')"

text \<open>
  The two failure exits of \<open>newChunk\<close> after the new chunk has been linked: the new
  file is closed and removed (the chunk stays in the list).
\<close>

definition abandon_new_file :: "world \<Rightarrow> nat \<Rightarrow> nat \<Rightarrow> world" where
  "abandon_new_file w file c =
     w\<lparr>disk := remove_ignoring_error (close_ignoring_error (disk w) file) (Path (store w ! c))\<rparr>"

definition install_writer :: "world \<Rightarrow> nat \<Rightarrow> nat \<Rightarrow> world" where
  "install_writer w file c =
     notifyNewChunkListeners
       (w\<lparr>journal := (journal w)\<lparr>writer := Some file, position := 0\<rparr>\<rparr>) c"

definition link_new_chunk :: "world \<Rightarrow> FileJournalChunk \<Rightarrow> world" where
  "link_new_chunk w ch =
     (let c = length (store w);
          w1 = w\<lparr>store := store w @ [ch]\<rparr>;
          w2 = (case first_chunk w1 of
                  Some oldHead \<Rightarrow> set_head_prev w1 oldHead (Some c)
                | None \<Rightarrow> set_last w1 (Some c));
          w3 = set_head_next w2 c (first_chunk w2);
          w4 = add_count (set_first w3 (Some c)) 1
      in add_refcount w4 c 1)"

text \<open>
  \<open>newChunk\<close> from \<open>if oldHead != nil\<close> on: the previous head is sealed and loses the
  reference of the writer, then the new file becomes the writer.
\<close>

definition seal_and_install ::
  "codec \<Rightarrow> world \<Rightarrow> nat option \<Rightarrow> nat \<Rightarrow> nat \<Rightarrow> panic + ((error + nat) \<times> world)" where
  "seal_and_install cd w1 oldHead file c =
     (case oldHead of
        None \<Rightarrow> Inr (Inr c, install_writer w1 file c)
      | Some old \<Rightarrow>
          (case finalizeChunk cd w1 old of
             (Some err, w2) \<Rightarrow> Inr (Inl err, abandon_new_file w2 file c)
           | (None, w2) \<Rightarrow>
               (case deleteRef w2 old of
                  Inl pn \<Rightarrow> Inl pn
                | Inr (Some err, destroyed, w3) \<Rightarrow> Inr (Inl err, abandon_new_file w3 file c)
                | Inr (None, destroyed, w3) \<Rightarrow> Inr (Inr c, install_writer w3 file c))))"

definition new_chunk_object :: "world \<Rightarrow> JournalPathInfo \<Rightarrow> FileJournalChunk" where
  "new_chunk_object w info =
     \<lparr>head_next = first_chunk w, head_prev = None,
      Path = pathPrefix w @ info_VariablePortion info @ pathSuffix w,
      Type = info_Type info, TSuffix = info_TSuffix info, Timestamp = 0,
      UniqueId = info_UniqueId info, refcount = 1\<rparr>"

definition newChunk ::
  "codec \<Rightarrow> int \<Rightarrow> 64 word \<Rightarrow> world \<Rightarrow> panic + ((error + nat) \<times> world)" where
  "newChunk cd now rnd w =
     (let ch = new_chunk_object w (BuildJournalPath cd (key (journal w)) Head now rnd)
      in case os_OpenFile_create_excl (disk w) (Path ch) of
           Inl err \<Rightarrow> Inr (Inl err, w)
         | Inr (file, d1) \<Rightarrow>
             (case (case writer (journal w) of
                      None \<Rightarrow> Inr d1
                    | Some wr \<Rightarrow> file_Close d1 wr) of
                Inl err \<Rightarrow> Inr (Inl err, w\<lparr>disk := d1\<rparr>)
              | Inr d2 \<Rightarrow>
                  seal_and_install cd (link_new_chunk (w\<lparr>disk := d2\<rparr>) ch)
                    (first_chunk w) file (length (store w))))"

text \<open>The last four statements of \<open>Write\<close>: the bytes go to \<open>journal.writer\<close>.\<close>

definition write_to_writer :: "string \<Rightarrow> world \<Rightarrow> panic + (error option \<times> world)" where
  "write_to_writer data w =
     (case writer (journal w) of
        None \<Rightarrow> Inl NilDereference
      | Some wr \<Rightarrow>
          (case file_Write (disk w) wr data of
             Inl err \<Rightarrow> Inr (Some err, w)
           | Inr (n, d) \<Rightarrow>
               if n \<noteq> length data then Inr (Some NotAllWritten, w\<lparr>disk := d\<rparr>)
               else Inr (None,
                      w\<lparr>disk := d,
                        journal := (journal w)\<lparr>position := position (journal w) + of_nat n\<rparr>\<rparr>)))"

definition needs_new_chunk :: "string \<Rightarrow> world \<Rightarrow> bool" where
  "needs_new_chunk data w =
     (case writer (journal w) of
        None \<Rightarrow> first_chunk w = None
      | Some wr \<Rightarrow>
          sint (maxSize w - position (journal w)) < sint (of_nat (length data) :: 64 word))"

definition Write ::
  "codec \<Rightarrow> int \<Rightarrow> 64 word \<Rightarrow> string \<Rightarrow> world \<Rightarrow> panic + (error option \<times> world)" where
  "Write cd now rnd data w =
     (if needs_new_chunk data w then
        (case newChunk cd now rnd w of
           Inl pn \<Rightarrow> Inl pn
         | Inr (Inl err, w') \<Rightarrow> Inr (Some err, w')
         | Inr (Inr c, w') \<Rightarrow> write_to_writer data w')
      else write_to_writer data w)"

definition GetTailChunk :: "world \<Rightarrow> JournalChunk \<times> world" where
  "GetTailChunk w =
     (case last_chunk w of
        None \<Rightarrow> (WrapperPointer None, w)
      | Some c \<Rightarrow>
          (WrapperPointer (Some (fst (newChunkWrapper w c))), snd (newChunkWrapper w c)))"

definition Journal_Dispose :: "world \<Rightarrow> error option \<times> world" where
  "Journal_Dispose w =
     (case writer (journal w) of
        None \<Rightarrow> (None, w)
      | Some wr \<Rightarrow>
          (case file_Close (disk w) wr of
             Inl err \<Rightarrow> (Some err, w)
           | Inr d \<Rightarrow> (None, w\<lparr>disk := d, journal := (journal w)\<lparr>writer := None\<rparr>\<rparr>)))"

section \<open>The startup scanner\<close>

subsection \<open>Sorting a chunk list by timestamp\<close>

text \<open>
  \<open>sortChunksByTimestamp\<close> is a bottom-up merge sort on the linked list.  The innermost
  loop walks \<open>rhs\<close> at most \<open>k\<close> steps ahead of \<open>lhs\<close> and stops in front of nil; it returns
  the steps left and the chunk reached.
\<close>

fun advance_rhs :: "FileJournalChunk list \<Rightarrow> nat \<Rightarrow> nat \<Rightarrow> nat \<times> nat" where
  "advance_rhs st 0 rhs = (0, rhs)"
| "advance_rhs st (Suc i) rhs =
     (case head_next (st ! rhs) of
        None \<Rightarrow> (Suc i, rhs)
      | Some n \<Rightarrow> advance_rhs st i n)"

text \<open>
  The end of the body of the merge loop: \<open>picked\<close> is taken out of the list it is in and
  appended to \<open>result\<close>.
\<close>

definition move_to_result ::
  "FileJournalChunk list \<Rightarrow> FileJournalChunkDequeue \<Rightarrow> nat \<Rightarrow>
     FileJournalChunk list \<times> FileJournalChunkDequeue" where
  "move_to_result st result picked =
     (let st1 = (case head_prev (st ! picked) of
                   None \<Rightarrow> st
                 | Some q \<Rightarrow> st[q := (st ! q)\<lparr>head_next := head_next (st ! picked)\<rparr>]);
          st2 = (case head_next (st1 ! picked) of
                   None \<Rightarrow> st1
                 | Some n \<Rightarrow> st1[n := (st1 ! n)\<lparr>head_prev := head_prev (st1 ! picked)\<rparr>]);
          st3 = (case dq_last result of
                   None \<Rightarrow> st2
                 | Some l \<Rightarrow> st2[l := (st2 ! l)\<lparr>head_next := Some picked\<rparr>]);
          result1 = (case dq_last result of
                       None \<Rightarrow> result\<lparr>dq_first := Some picked\<rparr>
                     | Some l \<Rightarrow> result);
          st4 = st3[picked := (st3 ! picked)\<lparr>head_prev := dq_last result, head_next := None\<rparr>]
      in (st4, result1\<lparr>dq_last := Some picked\<rparr>))"

text \<open>
  The merge loop.  It returns the store, \<open>result\<close> and \<open>rhs\<close>.  Reading \<open>lhs.Timestamp\<close>
  or \<open>lhs.head.next\<close> through a nil \<open>lhs\<close> is a nil dereference.
\<close>

function merge_runs ::
  "FileJournalChunk list \<Rightarrow> FileJournalChunkDequeue \<Rightarrow> nat option \<Rightarrow> nat \<Rightarrow> nat option \<Rightarrow> nat \<Rightarrow>
     panic + (FileJournalChunk list \<times> FileJournalChunkDequeue \<times> nat option)" where
  "merge_runs st result lhs lhsSize rhs rhsSize =
     (if lhsSize \<noteq> 0 then
        (case lhs of
           None \<Rightarrow> Inl NilDereference
         | Some l \<Rightarrow>
             (case (if rhsSize \<noteq> 0 then rhs else None) of
                Some r \<Rightarrow>
                  if sint (Timestamp (st ! l)) < sint (Timestamp (st ! r)) then
                    merge_runs (fst (move_to_result st result r)) (snd (move_to_result st result r))
                      lhs lhsSize (head_next (st ! r)) (rhsSize - 1)
                  else
                    merge_runs (fst (move_to_result st result l)) (snd (move_to_result st result l))
                      (head_next (st ! l)) (lhsSize - 1) rhs rhsSize
              | None \<Rightarrow>
                  merge_runs (fst (move_to_result st result l)) (snd (move_to_result st result l))
                    (head_next (st ! l)) (lhsSize - 1) rhs rhsSize))
      else
        (case (if rhsSize \<noteq> 0 then rhs else None) of
           Some r \<Rightarrow>
             merge_runs (fst (move_to_result st result r)) (snd (move_to_result st result r))
               lhs lhsSize (head_next (st ! r)) (rhsSize - 1)
         | None \<Rightarrow> Inr (st, result, rhs)))"
  by pat_completeness auto
termination
  by (relation "measure (\<lambda>(st, result, lhs, lhsSize, rhs, rhsSize). lhsSize + rhsSize)")
    (auto split: if_splits)

declare merge_runs.simps [simp del]

text \<open>
  One pass: runs of length \<open>k\<close> are merged pairwise until \<open>rhs\<close> is nil.  The flag \<open>first\<close>
  tells whether the pass needed a single merge.  The pass and the loop over the passes
  follow pointers with no bound the code states, hence the \<open>option\<close>: \<open>None\<close> is a loop
  that does not end.
\<close>

partial_function (option) merge_pass ::
  "FileJournalChunk list \<Rightarrow> FileJournalChunkDequeue \<Rightarrow> nat \<Rightarrow> nat \<Rightarrow> bool \<Rightarrow>
     (panic + (FileJournalChunk list \<times> FileJournalChunkDequeue \<times> bool)) option" where
  "merge_pass st result k lhs first =
     (case merge_runs st result (Some lhs) (k - fst (advance_rhs st k lhs))
             (Some (snd (advance_rhs st k lhs))) k of
        Inl pn \<Rightarrow> Some (Inl pn)
      | Inr (st', result', rhs') \<Rightarrow>
          (case rhs' of
             None \<Rightarrow> Some (Inr (st', result', first))
           | Some lhs' \<Rightarrow> merge_pass st' result' k lhs' False))"

declare merge_pass.simps [code]

partial_function (option) sort_passes ::
  "FileJournalChunk list \<Rightarrow> int \<Rightarrow> nat \<Rightarrow> nat \<Rightarrow>
     (panic + (FileJournalChunk list \<times> FileJournalChunkDequeue)) option" where
  "sort_passes st n k lhs =
     (case merge_pass st \<lparr>dq_first = None, dq_last = None, dq_count = n\<rparr> k lhs True of
        None \<Rightarrow> None
      | Some (Inl pn) \<Rightarrow> Some (Inl pn)
      | Some (Inr (st', result, first)) \<Rightarrow>
          if first then Some (Inr (st', result))
          else (case dq_first result of
                  None \<Rightarrow> Some (Inl NilDereference)
                | Some lhs' \<Rightarrow> sort_passes st' n (k * 2) lhs'))"

declare sort_passes.simps [code]

definition sortChunksByTimestamp ::
  "FileJournalChunk list \<Rightarrow> FileJournalChunkDequeue \<Rightarrow>
     (panic + (FileJournalChunk list \<times> FileJournalChunkDequeue)) option" where
  "sortChunksByTimestamp st dq =
     (case dq_first dq of
        None \<Rightarrow> Some (Inr (st, dq))
      | Some lhs \<Rightarrow> sort_passes st (dq_count dq) 1 lhs)"

subsection \<open>Validating a chunk list\<close>

partial_function (option) validate_loop ::
  "FileJournalChunk list \<Rightarrow> nat option \<Rightarrow> nat option \<Rightarrow> (error + nat option) option" where
  "validate_loop st ch chunkHead =
     (case ch of
        None \<Rightarrow> Some (Inr chunkHead)
      | Some c \<Rightarrow>
          if Type (st ! c) = Head then
            (if chunkHead \<noteq> None then Some (Inl MultipleHeads)
             else validate_loop st (head_next (st ! c)) (Some c))
          else validate_loop st (head_next (st ! c)) chunkHead)"

declare validate_loop.simps [code]

text \<open>\<open>Some None\<close> is the return of nil, \<open>Some (Some err)\<close> the return of an error.\<close>

definition validateChunks ::
  "FileJournalChunk list \<Rightarrow> FileJournalChunkDequeue \<Rightarrow> error option option" where
  "validateChunks st dq =
     (case validate_loop st (dq_first dq) None of
        None \<Rightarrow> None
      | Some (Inl err) \<Rightarrow> Some (Some err)
      | Some (Inr chunkHead) \<Rightarrow>
          if chunkHead \<noteq> dq_first dq then Some (Some HeadNotNewest) else Some None)"

subsection \<open>Scanning the directory\<close>

text \<open>
  The scanner reads the names of the directory in batches; the model is given the names
  in the order the batches deliver them.  It keeps the journals found so far (the Go map
  from key to journal, here in order of appearance), the chunk objects and the warnings
  it logged.
\<close>

record scan_state =
  sc_store :: "FileJournalChunk list"
  sc_journals :: "(string \<times> FileJournal) list"
  sc_warnings :: "string list"

definition path_Split :: "string \<Rightarrow> string \<times> string" where
  "path_Split p =
     (rev (dropWhile (\<lambda>c. c \<noteq> CHR ''/'') (rev p)), rev (takeWhile (\<lambda>c. c \<noteq> CHR ''/'') (rev p)))"

definition HasSuffix :: "string \<Rightarrow> string \<Rightarrow> bool" where
  "HasSuffix s suffix \<longleftrightarrow>
     length suffix \<le> length s \<and> drop (length s - length suffix) s = suffix"

definition proto_journal :: "string \<Rightarrow> FileJournal" where
  "proto_journal k =
     \<lparr>key = k, chunks = \<lparr>dq_first = None, dq_last = None, dq_count = 0\<rparr>,
      writer = None, position = 0, newChunkListeners = [], flushListeners = []\<rparr>"

definition append_scanned_chunk ::
  "string \<Rightarrow> string \<Rightarrow> JournalPathInfo \<Rightarrow> scan_state \<Rightarrow> scan_state" where
  "append_scanned_chunk pfx sfx info s =
     (let journalProto = (case map_of (sc_journals s) (info_Key info) of
                            None \<Rightarrow> proto_journal (info_Key info)
                          | Some j \<Rightarrow> j);
          c = length (sc_store s);
          ch = \<lparr>head_next = None, head_prev = dq_last (chunks journalProto),
                Path = pfx @ info_VariablePortion info @ sfx,
                Type = info_Type info, TSuffix = info_TSuffix info,
                Timestamp = info_Timestamp info, UniqueId = info_UniqueId info,
                refcount = 1\<rparr>;
          st1 = sc_store s @ [ch];
          st2 = (case dq_last (chunks journalProto) of
                   None \<Rightarrow> st1
                 | Some l \<Rightarrow> st1[l := (st1 ! l)\<lparr>head_next := Some c\<rparr>]);
          dq1 = (case dq_last (chunks journalProto) of
                   None \<Rightarrow> (chunks journalProto)\<lparr>dq_first := Some c\<rparr>
                 | Some l \<Rightarrow> chunks journalProto);
          dq2 = dq1\<lparr>dq_last := Some c, dq_count := dq_count dq1 + 1\<rparr>
      in s\<lparr>sc_store := st2,
           sc_journals :=
             (case map_of (sc_journals s) (info_Key info) of
                None \<Rightarrow> sc_journals s @ [(info_Key info, journalProto\<lparr>chunks := dq2\<rparr>)]
              | Some j \<Rightarrow>
                  map (\<lambda>(k, j'). if k = info_Key info then (k, journalProto\<lparr>chunks := dq2\<rparr>)
                                 else (k, j')) (sc_journals s))\<rparr>)"

text \<open>
  The body of the loop over the names.  The slice expression
  \<open>file[len(basename) : len(file)-len(pathSuffix)]\<close> panics when its lower bound is above
  its upper bound.
\<close>

definition scan_entry ::
  "codec \<Rightarrow> string \<Rightarrow> string \<Rightarrow> string \<Rightarrow> scan_state \<Rightarrow> string \<Rightarrow> panic + scan_state" where
  "scan_entry cd pfx sfx basename s file =
     (if \<not> HasSuffix file sfx then Inr s
      else if length file - length sfx < length basename then Inl SliceOutOfRange
      else
        (case DecodeJournalPath cd
                (drop (length basename) (take (length file - length sfx) file)) of
           Inl err \<Rightarrow> Inr (s\<lparr>sc_warnings := sc_warnings s @ [file]\<rparr>)
         | Inr info \<Rightarrow> Inr (append_scanned_chunk pfx sfx info s)))"

fun scan_entries ::
  "codec \<Rightarrow> string \<Rightarrow> string \<Rightarrow> string \<Rightarrow> scan_state \<Rightarrow> string list \<Rightarrow> panic + scan_state" where
  "scan_entries cd pfx sfx basename s [] = Inr s"
| "scan_entries cd pfx sfx basename s (file # files) =
     (case scan_entry cd pfx sfx basename s file of
        Inl pn \<Rightarrow> Inl pn
      | Inr s' \<Rightarrow> scan_entries cd pfx sfx basename s' files)"

text \<open>The loop over the journals found: sort, then validate; the first error ends it.\<close>

fun sort_and_validate ::
  "FileJournalChunk list \<Rightarrow> (string \<times> FileJournal) list \<Rightarrow>
     (panic + (error + FileJournalChunk list \<times> (string \<times> FileJournal) list)) option" where
  "sort_and_validate st [] = Some (Inr (Inr (st, [])))"
| "sort_and_validate st ((k, j) # js) =
     (case sortChunksByTimestamp st (chunks j) of
        None \<Rightarrow> None
      | Some (Inl pn) \<Rightarrow> Some (Inl pn)
      | Some (Inr (st', dq)) \<Rightarrow>
          (case validateChunks st' dq of
             None \<Rightarrow> None
           | Some (Some err) \<Rightarrow> Some (Inr (Inl err))
           | Some None \<Rightarrow>
               (case sort_and_validate st' js of
                  None \<Rightarrow> None
                | Some (Inl pn) \<Rightarrow> Some (Inl pn)
                | Some (Inr (Inl err)) \<Rightarrow> Some (Inr (Inl err))
                | Some (Inr (Inr (st'', js'))) \<Rightarrow>
                    Some (Inr (Inr (st'', (k, j\<lparr>chunks := dq\<rparr>) # js'))))))"

definition scanJournals ::
  "codec \<Rightarrow> string \<Rightarrow> string \<Rightarrow> string list \<Rightarrow>
     (panic + (error + FileJournalChunk list \<times> (string \<times> FileJournal) list)) option" where
  "scanJournals cd pfx sfx files =
     (case scan_entries cd pfx sfx (snd (path_Split pfx))
             \<lparr>sc_store = [], sc_journals = [], sc_warnings = []\<rparr> files of
        Inl pn \<Rightarrow> Some (Inl pn)
      | Inr s \<Rightarrow> sort_and_validate (sc_store s) (sc_journals s))"

section \<open>The journal group\<close>

text \<open>
  A group owns the journals of one path pattern.  The chunk objects and the disk are
  shared by its journals.  The factory remembers which plugin instance bound which path.
\<close>

record journal_group =
  g_store :: "FileJournalChunk list"
  g_disk :: filesys
  g_journals :: "(string \<times> FileJournal) list"
  g_maxSize :: "64 word"
  g_pathPrefix :: string
  g_pathSuffix :: string
  g_pluginInstance :: nat

record factory =
  paths :: "(string \<times> nat) list"
  defaultPathSuffix :: string
  f_maxSize :: "64 word"

text \<open>\<open>FileJournalGroup.Dispose\<close>: every journal is disposed, the errors are dropped.\<close>

definition dispose_journal :: "filesys \<Rightarrow> FileJournal \<Rightarrow> filesys \<times> FileJournal" where
  "dispose_journal d j =
     (case writer j of
        None \<Rightarrow> (d, j)
      | Some wr \<Rightarrow>
          (case file_Close d wr of
             Inl err \<Rightarrow> (d, j)
           | Inr d' \<Rightarrow> (d', j\<lparr>writer := None\<rparr>)))"

fun dispose_journals ::
  "filesys \<Rightarrow> (string \<times> FileJournal) list \<Rightarrow> filesys \<times> (string \<times> FileJournal) list" where
  "dispose_journals d [] = (d, [])"
| "dispose_journals d ((k, j) # js) =
     (case dispose_journal d j of
        (d', j') \<Rightarrow>
          (case dispose_journals d' js of (d'', js') \<Rightarrow> (d'', (k, j') # js')))"

definition Group_Dispose :: "journal_group \<Rightarrow> journal_group" where
  "Group_Dispose g =
     g\<lparr>g_disk := fst (dispose_journals (g_disk g) (g_journals g)),
       g_journals := snd (dispose_journals (g_disk g) (g_journals g))\<rparr>"

text \<open>
  The last loop of \<open>GetJournalGroup\<close>: the newest chunk of every journal found is opened
  for appending.  \<open>opened\<close> are the journals dealt with, \<open>js\<close> those to come; on a failure
  the group is disposed and the error returned (with the disk as it then is).
\<close>

fun open_writers ::
  "FileJournalChunk list \<Rightarrow> filesys \<Rightarrow> (string \<times> FileJournal) list \<Rightarrow>
     (string \<times> FileJournal) list \<Rightarrow>
     panic + (error \<times> filesys + FileJournalChunk list \<times> filesys \<times> (string \<times> FileJournal) list)"
  where
  "open_writers st d opened [] = Inr (Inr (st, d, opened))"
| "open_writers st d opened ((k, j) # js) =
     (case dq_first (chunks j) of
        None \<Rightarrow> Inl NilDereference
      | Some c \<Rightarrow>
          (case os_OpenFile_append d (Path (st ! c)) of
             Inl err \<Rightarrow> Inr (Inl (err, fst (dispose_journals d (opened @ (k, j) # js))))
           | Inr (file, d1) \<Rightarrow>
               (case file_Seek_end d1 file of
                  Inl err \<Rightarrow>
                    Inr (Inl (err, fst (dispose_journals (close_ignoring_error d1 file)
                                         (opened @ (k, j) # js))))
                | Inr pos \<Rightarrow>
                    open_writers (st[c := (st ! c)\<lparr>refcount := refcount (st ! c) + 1\<rparr>]) d1
                      (opened @ [(k, j\<lparr>writer := Some file, position := pos\<rparr>)]) js)))"

definition split_path :: "string \<Rightarrow> string \<Rightarrow> string \<times> string" where
  "split_path dflt path =
     (if CHR ''*'' \<in> set path
      then (takeWhile (\<lambda>c. c \<noteq> CHR ''*'') path, tl (dropWhile (\<lambda>c. c \<noteq> CHR ''*'') path))
      else (path @ ''.'', dflt))"

datatype group_result =
    Registered
  | Failed error filesys
  | Created journal_group factory

text \<open>
  \<open>GetJournalGroup\<close>.  \<open>files\<close> are the names the directory of the prefix holds, as
  \<open>Readdirnames\<close> delivers them, and \<open>d\<close> is the disk.  \<open>Registered\<close> stands for the return
  of the group that the same plugin instance bound before.
\<close>

definition GetJournalGroup ::
  "codec \<Rightarrow> factory \<Rightarrow> string \<Rightarrow> nat \<Rightarrow> string list \<Rightarrow> filesys \<Rightarrow> (panic + group_result) option"
  where
  "GetJournalGroup cd fac path pluginInstance files d =
     (case map_of (paths fac) path of
        Some registered \<Rightarrow>
          if registered = pluginInstance then Some (Inr Registered)
          else Some (Inr (Failed OtherPluginUsesPath d))
      | None \<Rightarrow>
          (case scanJournals cd (fst (split_path (defaultPathSuffix fac) path))
                  (snd (split_path (defaultPathSuffix fac) path)) files of
             None \<Rightarrow> None
           | Some (Inl pn) \<Rightarrow> Some (Inl pn)
           | Some (Inr (Inl err)) \<Rightarrow> Some (Inr (Failed err d))
           | Some (Inr (Inr (st, js))) \<Rightarrow>
               (case open_writers st d [] js of
                  Inl pn \<Rightarrow> Some (Inl pn)
                | Inr (Inl (err, d')) \<Rightarrow> Some (Inr (Failed err d'))
                | Inr (Inr (st', d', js')) \<Rightarrow>
                    Some (Inr (Created
                      \<lparr>g_store = st', g_disk = d', g_journals = js',
                       g_maxSize = f_maxSize fac,
                       g_pathPrefix = fst (split_path (defaultPathSuffix fac) path),
                       g_pathSuffix = snd (split_path (defaultPathSuffix fac) path),
                       g_pluginInstance = pluginInstance\<rparr>
                      (fac\<lparr>paths := paths fac @ [(path, pluginInstance)]\<rparr>))))))"

text \<open>The state of one journal of a group, and the journal \<open>GetFileJournal\<close> returns.\<close>

definition world_of :: "journal_group \<Rightarrow> FileJournal \<Rightarrow> world" where
  "world_of g j =
     \<lparr>store = g_store g, disk = g_disk g, journal = j, maxSize = g_maxSize g,
      pathPrefix = g_pathPrefix g, pathSuffix = g_pathSuffix g\<rparr>"

definition GetFileJournal :: "journal_group \<Rightarrow> string \<Rightarrow> FileJournal \<times> journal_group" where
  "GetFileJournal g k =
     (case map_of (g_journals g) k of
        Some j \<Rightarrow> (j, g)
      | None \<Rightarrow>
          (proto_journal k, g\<lparr>g_journals := g_journals g @ [(k, proto_journal k)]\<rparr>))"

text \<open>
  The names a directory listing may deliver for the directory \<open>dir\<close> of a disk: every
  entry of the directory once, in any order.
\<close>

definition lists_directory :: "filesys \<Rightarrow> string \<Rightarrow> string list \<Rightarrow> bool" where
  "lists_directory d dir files \<longleftrightarrow>
     distinct files \<and>
     set files = {f. CHR ''/'' \<notin> set f \<and> f \<noteq> [] \<and> names d (dir @ f) \<noteq> None}"

section \<open>A concrete codec and concrete states\<close>

text \<open>
  Modelled from the spec: the path codec (\<open>BuildJournalPath\<close>,
  \<open>BuildJournalPathWithTSuffix\<close>, \<open>DecodeJournalPath\<close> are not among the sources).  The
  spec asks for a variable portion that encodes key, role and \<open>t_suffix\<close>, with the two
  roles differing in one segment, a timestamp read back from \<open>t_suffix\<close>, and a 12-bit
  nonce.  Here the variable portion is \<open>key.b<hex>\<close> for a head and \<open>key.q<hex>\<close> for a
  sealed chunk, \<open><hex>\<close> being the time shifted by twelve bits plus the nonce.  It is used
  only to run the journal on concrete inputs.
\<close>

definition hexdigit :: "nat \<Rightarrow> char" where
  "hexdigit n = ''0123456789abcdef'' ! n"

fun hex :: "nat \<Rightarrow> string" where
  "hex n = (if n < 16 then [hexdigit n] else hex (n div 16) @ [hexdigit (n mod 16)])"

declare hex.simps [simp del]

definition hexval :: "char \<Rightarrow> nat option" where
  "hexval c =
     (let n = (of_char c :: nat)
      in if 48 \<le> n \<and> n \<le> 57 then Some (n - 48)
         else if 97 \<le> n \<and> n \<le> 102 then Some (n - 87)
         else None)"

fun unhex :: "nat \<Rightarrow> string \<Rightarrow> nat option" where
  "unhex acc [] = Some acc"
| "unhex acc (c # cs) =
     (case hexval c of None \<Rightarrow> None | Some v \<Rightarrow> unhex (16 * acc + v) cs)"

definition marker :: "JournalFileType \<Rightarrow> char" where
  "marker t = (case t of Head \<Rightarrow> CHR ''b'' | Rest \<Rightarrow> CHR ''q'')"

definition demo_build_ts :: "string \<Rightarrow> JournalFileType \<Rightarrow> string \<Rightarrow> string" where
  "demo_build_ts k t ts = k @ ''.'' @ [marker t] @ ts"

definition demo_build :: "string \<Rightarrow> JournalFileType \<Rightarrow> int \<Rightarrow> 64 word \<Rightarrow> JournalPathInfo" where
  "demo_build k t now rnd =
     (let n = nat now * 4096 + unat rnd mod 4096; ts = hex n
      in \<lparr>info_Key = k, info_Type = t, info_VariablePortion = demo_build_ts k t ts,
          info_TSuffix = ts, info_Timestamp = of_nat n, info_UniqueId = ts\<rparr>)"

definition demo_decode :: "string \<Rightarrow> error + JournalPathInfo" where
  "demo_decode vp =
     (let seg = rev (takeWhile (\<lambda>c. c \<noteq> CHR ''.'') (rev vp));
          rest = dropWhile (\<lambda>c. c \<noteq> CHR ''.'') (rev vp)
      in case rest of
           [] \<Rightarrow> Inl MalformedPath
         | dot # rk \<Rightarrow>
             (case seg of
                [] \<Rightarrow> Inl MalformedPath
              | m # ts \<Rightarrow>
                  if ts = [] \<or> 16 < length ts \<or> (m \<noteq> CHR ''b'' \<and> m \<noteq> CHR ''q'')
                  then Inl MalformedPath
                  else (case unhex 0 ts of
                          None \<Rightarrow> Inl MalformedPath
                        | Some n \<Rightarrow>
                            Inr \<lparr>info_Key = rev rk,
                                 info_Type = (if m = CHR ''b'' then Head else Rest),
                                 info_VariablePortion = vp, info_TSuffix = ts,
                                 info_Timestamp = of_nat n, info_UniqueId = ts\<rparr>)))"

definition demo_codec :: codec where
  "demo_codec =
     \<lparr>BuildJournalPath = demo_build, BuildJournalPathWithTSuffix = demo_build_ts,
      DecodeJournalPath = demo_decode\<rparr>"

definition empty_disk :: filesys where
  "empty_disk =
     \<lparr>names = Map.empty, contents = (\<lambda>i. []), handles = Map.empty, ninode = 0, nhandle = 0\<rparr>"

text \<open>The journal \<open>GetFileJournal\<close> makes for a key it has not seen.\<close>

definition fresh_journal :: "string \<Rightarrow> FileJournal" where
  "fresh_journal k =
     \<lparr>key = k, chunks = \<lparr>dq_first = None, dq_last = None, dq_count = 0\<rparr>,
      writer = None, position = 0, newChunkListeners = [], flushListeners = []\<rparr>"

text \<open>
  A group on \<open>/tmp/j.*.log\<close> with a size budget of four bytes, and the states the journal
  \<open>s\<close> goes through when \<open>AAA\<close>, \<open>BBB\<close> and \<open>CCC\<close> are written at times 1, 2 and 3.
\<close>

definition demo_empty :: world where
  "demo_empty =
     \<lparr>store = [], disk = empty_disk, journal = fresh_journal ''s'',
      maxSize = 4, pathPrefix = ''/tmp/j.'', pathSuffix = ''.log''\<rparr>"

definition demo_one :: world where
  "demo_one =
     \<lparr>store =
        [\<lparr>head_next = None, head_prev = None, Path = ''/tmp/j.s.b1005.log'', Type = Head,
          TSuffix = ''1005'', Timestamp = 0, UniqueId = ''1005'', refcount = 2\<rparr>],
      disk =
        \<lparr>names = [''/tmp/j.s.b1005.log'' \<mapsto> 0],
         contents = (\<lambda>i. [])(0 := ''AAA''),
         handles = [0 \<mapsto> 0], ninode = 1, nhandle = 1\<rparr>,
      journal =
        \<lparr>key = ''s'', chunks = \<lparr>dq_first = Some 0, dq_last = Some 0, dq_count = 1\<rparr>,
         writer = Some 0, position = 3, newChunkListeners = [], flushListeners = []\<rparr>,
      maxSize = 4, pathPrefix = ''/tmp/j.'', pathSuffix = ''.log''\<rparr>"

definition demo_three :: world where
  "demo_three =
     \<lparr>store =
        [\<lparr>head_next = None, head_prev = Some 1, Path = ''/tmp/j.s.q1005.log'', Type = Rest,
          TSuffix = ''1005'', Timestamp = 0, UniqueId = ''1005'', refcount = 1\<rparr>,
         \<lparr>head_next = Some 0, head_prev = Some 2, Path = ''/tmp/j.s.q2006.log'', Type = Rest,
          TSuffix = ''2006'', Timestamp = 0, UniqueId = ''2006'', refcount = 1\<rparr>,
         \<lparr>head_next = Some 1, head_prev = None, Path = ''/tmp/j.s.b3007.log'', Type = Head,
          TSuffix = ''3007'', Timestamp = 0, UniqueId = ''3007'', refcount = 2\<rparr>],
      disk =
        \<lparr>names = [''/tmp/j.s.q1005.log'' \<mapsto> 0, ''/tmp/j.s.q2006.log'' \<mapsto> 1,
                  ''/tmp/j.s.b3007.log'' \<mapsto> 2],
         contents = (\<lambda>i. [])(0 := ''AAA'', 1 := ''BBB'', 2 := ''CCC''),
         handles = [2 \<mapsto> 2], ninode = 3, nhandle = 3\<rparr>,
      journal =
        \<lparr>key = ''s'', chunks = \<lparr>dq_first = Some 2, dq_last = Some 0, dq_count = 3\<rparr>,
         writer = Some 2, position = 3, newChunkListeners = [], flushListeners = []\<rparr>,
      maxSize = 4, pathPrefix = ''/tmp/j.'', pathSuffix = ''.log''\<rparr>"

definition demo_disposed :: world where
  "demo_disposed =
     demo_one\<lparr>disk := (disk demo_one)\<lparr>handles := Map.empty\<rparr>,
              journal := (journal demo_one)\<lparr>writer := None\<rparr>\<rparr>"

text \<open>Two states agree on everything a consumer or the journal can observe.\<close>

definition same_world :: "world \<Rightarrow> world \<Rightarrow> bool" where
  "same_world u v \<longleftrightarrow>
     store u = store v \<and> journal u = journal v \<and> maxSize u = maxSize v \<and>
     pathPrefix u = pathPrefix v \<and> pathSuffix u = pathSuffix v \<and>
     ninode (disk u) = ninode (disk v) \<and> nhandle (disk u) = nhandle (disk v) \<and>
     (\<forall>p. names (disk u) p = names (disk v) p) \<and>
     (\<forall>i. contents (disk u) i = contents (disk v) i) \<and>
     (\<forall>h. handles (disk u) h = handles (disk v) h)"
section \<open>The chunk list as a list\<close>

text \<open>
  \<open>chunk_path f st p cs q\<close>: starting from the pointer \<open>p\<close> and following the field \<open>f\<close>
  one visits the chunks \<open>cs\<close>, in this order, and arrives at the pointer \<open>q\<close>.  A journal
  is well linked with the chunks \<open>cs\<close> (newest first) when \<open>head.next\<close> leads from
  \<open>chunks.first\<close> through \<open>cs\<close> to nil and \<open>head.prev\<close> leads from \<open>chunks.last\<close> through
  \<open>cs\<close> backwards to nil.
\<close>

primrec chunk_path ::
  "(FileJournalChunk \<Rightarrow> nat option) \<Rightarrow> FileJournalChunk list \<Rightarrow> nat option \<Rightarrow> nat list \<Rightarrow>
     nat option \<Rightarrow> bool" where
  "chunk_path f st p [] q \<longleftrightarrow> p = q"
| "chunk_path f st p (c # cs) q \<longleftrightarrow>
     p = Some c \<and> c < length st \<and> chunk_path f st (f (st ! c)) cs q"

definition well_linked :: "world \<Rightarrow> nat list \<Rightarrow> bool" where
  "well_linked w cs \<longleftrightarrow>
     distinct cs \<and>
     chunk_path head_next (store w) (first_chunk w) cs None \<and>
     chunk_path head_prev (store w) (last_chunk w) (rev cs) None"

text \<open>A state in which the consumer removed the file of the middle chunk itself.\<close>

definition demo_three_lost :: world where
  "demo_three_lost =
     demo_three\<lparr>disk := (disk demo_three)
        \<lparr>names := (names (disk demo_three))(''/tmp/j.s.q2006.log'' := None)\<rparr>\<rparr>"

text \<open>The three chunks while a consumer holds a handle on the middle one.\<close>

definition demo_three_held :: world where
  "demo_three_held = add_refcount demo_three 1 1"

text \<open>The chunks of a list that are heads, and a store with one sealed chunk.\<close>

definition heads :: "FileJournalChunk list \<Rightarrow> nat list \<Rightarrow> nat list" where
  "heads st cs = filter (\<lambda>c. Type (st ! c) = Head) cs"

definition rest_only :: "FileJournalChunk list" where
  "rest_only =
     [\<lparr>head_next = None, head_prev = None, Path = ''/tmp/j.s.q1005.log'', Type = Rest,
       TSuffix = ''1005'', Timestamp = 4101, UniqueId = ''1005'', refcount = 1\<rparr>]"

text \<open>What a scan of the names has found: the chunk objects and the journals.\<close>

definition found ::
  "panic + scan_state \<Rightarrow> panic + FileJournalChunk list \<times> (string \<times> FileJournal) list" where
  "found r = (case r of Inl pn \<Rightarrow> Inl pn | Inr s \<Rightarrow> Inr (sc_store s, sc_journals s))"

text \<open>What \<open>deleteRef\<close> leaves alone: the bytes, the open files, the journal's writer.\<close>

definition frame :: "world \<Rightarrow> world \<Rightarrow> bool" where
  "frame w w' \<longleftrightarrow>
     contents (disk w') = contents (disk w) \<and> handles (disk w') = handles (disk w) \<and>
     ninode (disk w') = ninode (disk w) \<and> nhandle (disk w') = nhandle (disk w) \<and>
     length (store w') = length (store w) \<and>
     writer (journal w') = writer (journal w) \<and> position (journal w') = position (journal w) \<and>
     key (journal w') = key (journal w) \<and>
     newChunkListeners (journal w') = newChunkListeners (journal w) \<and>
     flushListeners (journal w') = flushListeners (journal w) \<and>
     maxSize w' = maxSize w \<and> pathPrefix w' = pathPrefix w \<and> pathSuffix w' = pathSuffix w"

text \<open>
  The invariants of a journal with the chunks \<open>cs\<close>: the list is well linked, every
  linked chunk has a count of at least one and a file on disk, and no two chunks share
  a path.
\<close>

definition journal_ok :: "world \<Rightarrow> nat list \<Rightarrow> bool" where
  "journal_ok w cs \<longleftrightarrow>
     well_linked w cs \<and>
     (\<forall>c \<in> set cs. 1 \<le> sint (refcount (store w ! c)) \<and>
        names (disk w) (Path (store w ! c)) \<noteq> None) \<and>
     distinct (map (\<lambda>c. Path (store w ! c)) cs)"

text \<open>
  What a call \<open>deleteRef(c)\<close> that returned \<open>destroyed = d\<close> has made of a list with the
  newer chunks \<open>ys\<close> and the older chunks \<open>zs\<close>: the newer chunks \<open>ys'\<close> are left.
\<close>

definition cascaded ::
  "world \<Rightarrow> nat list \<Rightarrow> nat \<Rightarrow> nat list \<Rightarrow> bool \<Rightarrow> world \<Rightarrow> nat list \<Rightarrow> bool" where
  "cascaded w ys c zs d w' ys' \<longleftrightarrow>
     well_linked w' (ys' @ (if d then zs else c # zs)) \<and>
     (\<exists>rs. ys = ys' @ rs) \<and> (\<not> d \<longrightarrow> ys' = ys) \<and>
     (\<forall>y \<in> set ys' \<union> (if d then {} else {c}).
        1 \<le> sint (refcount (store w' ! y)) \<and> names (disk w') (Path (store w' ! y)) \<noteq> None) \<and>
     (\<forall>x. Path (store w' ! x) = Path (store w ! x)) \<and>
     (\<forall>q. q \<notin> (\<lambda>y. Path (store w ! y)) ` set (ys @ [c]) \<longrightarrow>
        names (disk w') q = names (disk w) q)"

text \<open>
  The two paths of a roll-over: the one \<open>newChunk\<close> gives the new head, and the one
  \<open>finalizeChunk\<close> gives the chunk it seals.
\<close>

definition new_head_path :: "codec \<Rightarrow> int \<Rightarrow> 64 word \<Rightarrow> world \<Rightarrow> string" where
  "new_head_path cd now rnd w =
     pathPrefix w @ info_VariablePortion (BuildJournalPath cd (key (journal w)) Head now rnd) @
     pathSuffix w"

definition sealed_path :: "codec \<Rightarrow> world \<Rightarrow> nat \<Rightarrow> string" where
  "sealed_path cd w c =
     pathPrefix w @ BuildJournalPathWithTSuffix cd (key (journal w)) Rest (TSuffix (store w ! c)) @
     pathSuffix w"

text \<open>The journal after one write, with the smallest size budget an \<open>int64\<close> can hold.\<close>

definition demo_one_min :: world where
  "demo_one_min = demo_one\<lparr>maxSize := - (2 ^ 63)\<rparr>"

text \<open>
  A directory that two groups share: \<open>/tmp/k.*.log\<close> left a sealed chunk of its journal
  \<open>s\<close> there, \<open>/tmp/j.*.log\<close> the head of its own journal \<open>s\<close>.  \<open>demo_phantom\<close> is the
  state of the journal \<open>s\<close> of the group that is then made for \<open>/tmp/j.*.log\<close>.
\<close>

definition shared_dir :: filesys where
  "shared_dir =
     \<lparr>names = [''/tmp/k.s.q1005.log'' \<mapsto> 0, ''/tmp/j.s.b2006.log'' \<mapsto> 1],
      contents = ((\<lambda>i. [])(0 := ''XXX''))(1 := ''AAA''),
      handles = Map.empty, ninode = 2, nhandle = 0\<rparr>"

definition demo_factory :: factory where
  "demo_factory = \<lparr>paths = [], defaultPathSuffix = ''.log'', f_maxSize = 4\<rparr>"

definition demo_phantom :: world where
  "demo_phantom =
     \<lparr>store =
        [\<lparr>head_next = None, head_prev = Some 1, Path = ''/tmp/j.s.q1005.log'', Type = Rest,
          TSuffix = ''1005'', Timestamp = 4101, UniqueId = ''1005'', refcount = 1\<rparr>,
         \<lparr>head_next = Some 0, head_prev = None, Path = ''/tmp/j.s.b2006.log'', Type = Head,
          TSuffix = ''2006'', Timestamp = 8198, UniqueId = ''2006'', refcount = 2\<rparr>],
      disk = shared_dir\<lparr>handles := [0 \<mapsto> 1], nhandle := 1\<rparr>,
      journal =
        \<lparr>key = ''s'', chunks = \<lparr>dq_first = Some 1, dq_last = Some 0, dq_count = 2\<rparr>,
         writer = Some 0, position = 3, newChunkListeners = [], flushListeners = []\<rparr>,
      maxSize = 4, pathPrefix = ''/tmp/j.'', pathSuffix = ''.log''\<rparr>"

section \<open>Evaluation lemmas\<close>

lemmas fs_defs =
  os_OpenFile_create_excl_def os_OpenFile_append_def os_OpenFile_rdonly_def
  file_Write_def file_Close_def file_Seek_end_def os_Remove_def os_Rename_def

lemmas st_defs =
  add_refcount_def set_head_next_def set_head_prev_def set_first_def set_last_def
  add_count_def

lemmas demo_defs =
  demo_codec_def demo_build_def demo_build_ts_def marker_def empty_disk_def
  fresh_journal_def

lemmas journal_defs =
  Write_def needs_new_chunk_def newChunk_def new_chunk_object_def seal_and_install_def
  link_new_chunk_def install_writer_def
  notifyNewChunkListeners_def notifyFlushListeners_def notifyListeners_def
  write_to_writer_def finalizeChunk_def newChunkWrapper_def unlink_chunk_def
  remove_and_unlink_def abandon_new_file_def close_ignoring_error_def
  remove_ignoring_error_def

lemmas scan_defs =
  scanJournals_def scan_entry_def path_Split_def HasSuffix_def demo_codec_def demo_decode_def
    hexval_def append_scanned_chunk_def proto_journal_def Let_def sortChunksByTimestamp_def
    sort_passes.simps merge_pass.simps merge_runs.simps move_to_result_def validateChunks_def validate_loop.simps

lemma hex_4101: "hex 4101 = ''1005''"
  by (simp add: hex.simps hexdigit_def)

lemma hex_8198: "hex 8198 = ''2006''"
  by (simp add: hex.simps hexdigit_def)

lemma hex_12295: "hex 12295 = ''3007''"
  by (simp add: hex.simps hexdigit_def)

text \<open>The concrete states are the ones the journal reaches.\<close>

lemma demo_one_reachable:
  "\<exists>w. Write demo_codec 1 5 ''AAA'' demo_empty = Inr (None, w) \<and> same_world w demo_one"
  by (simp add: journal_defs demo_empty_def demo_one_def same_world_def
      fs_defs st_defs demo_defs Let_def hex_4101)

lemma demo_disposed_reachable: "Journal_Dispose demo_one = (None, demo_disposed)"
  by (simp add: Journal_Dispose_def demo_one_def demo_disposed_def fs_defs)

section \<open>Facts about the store\<close>

lemma length_store_add_refcount [simp]: "length (store (add_refcount w c n)) = length (store w)"
  by (simp add: add_refcount_def)

lemma length_store_unlink [simp]: "length (store (unlink_chunk w c)) = length (store w)"
  by (simp add: unlink_chunk_def Let_def st_defs split: option.splits)

lemma nth_update_field:
  "(\<And>x. f (g x) = f x) \<Longrightarrow> f (xs[i := g (xs ! i)] ! j) = f (xs ! j)"
  by (cases "i < length xs"; cases "j = i") (simp_all add: list_update_beyond)

lemma refcount_add_refcount:
  "refcount (store (add_refcount w c n) ! x) =
     (if x = c \<and> c < length (store w) then refcount (store w ! c) + n else refcount (store w ! x))"
  by (cases "c < length (store w)"; cases "x = c")
    (simp_all add: add_refcount_def list_update_beyond)

lemma refcount_unlink [simp]: "refcount (store (unlink_chunk w c) ! x) = refcount (store w ! x)"
  by (simp add: unlink_chunk_def Let_def st_defs nth_update_field split: option.splits)

lemma refcount_set_disk [simp]: "store (w\<lparr>disk := d\<rparr>) = store w"
  by simp

text \<open>A call that returns has not visited a chunk whose count was zero.\<close>

lemma deleteRef_keeps_zero:
  "deleteRef w x = Inr (e, d, w') \<Longrightarrow> c < length (store w) \<Longrightarrow> refcount (store w ! c) = 0 \<Longrightarrow>
     length (store w') = length (store w) \<and> refcount (store w' ! c) = 0"
proof (induction w x arbitrary: e d w' rule: deleteRef.induct)
  case (1 w x)
  from "1.prems"(1) have xl: "x < length (store w)"
    by (subst (asm) deleteRef.simps) (simp split: if_splits)
  have xc: "x \<noteq> c"
  proof
    assume "x = c"
    with "1.prems" xl show False
      by (subst (asm) deleteRef.simps) (simp add: refcount_add_refcount)
  qed
  let ?w1 = "add_refcount w x (- 1)"
  have c1: "c < length (store ?w1)" "refcount (store ?w1 ! c) = 0"
    using "1.prems" xc by (simp_all add: refcount_add_refcount)
  have fin: "length (store v') = length (store v) \<and> refcount (store v' ! c) = 0"
    if "remove_and_unlink v x = Inr (e, d, v')" "refcount (store v ! c) = 0" for v v'
    using that xc
    by (auto simp: remove_and_unlink_def refcount_add_refcount split: sum.splits)
  show ?case
  proof (cases "refcount (store ?w1 ! x) = 0")
    case False
    with "1.prems"(1) xl c1 show ?thesis
      by (subst (asm) deleteRef.simps) (auto split: if_splits)
  next
    case z: True
    show ?thesis
    proof (cases "head_prev (store ?w1 ! x)")
      case None
      with "1.prems"(1) xl z have "remove_and_unlink ?w1 x = Inr (e, d, w')"
        by (subst (asm) deleteRef.simps) simp
      from fin [OF this c1(2)] show ?thesis by simp
    next
      case (Some p)
      from "1.prems"(1) xl z Some obtain e2 d2 w2 where
        r: "deleteRef ?w1 p = Inr (e2, d2, w2)"
        by (subst (asm) deleteRef.simps) (auto split: sum.splits)
      from "1.IH" [OF _ z Some r c1] xl
      have ih: "length (store w2) = length (store w)" "refcount (store w2 ! c) = 0"
        by simp_all
      show ?thesis
      proof (cases e2)
        case None
        with "1.prems"(1) xl z Some r have "remove_and_unlink w2 x = Inr (e, d, w')"
          by (subst (asm) deleteRef.simps) simp
        from fin [OF this ih(2)] ih show ?thesis by simp
      next
        case (Some err)
        with "1.prems"(1) xl z \<open>head_prev (store ?w1 ! x) = Some p\<close> r
        have "w' = add_refcount w2 x 1"
          by (subst (asm) deleteRef.simps) simp
        with ih xc show ?thesis by (simp add: refcount_add_refcount)
      qed
    qed
  qed
qed

lemma sint_dec:
  fixes x :: "32 word"
  assumes "0 < sint x"
  shows "sint (x - 1) = sint x - 1"
proof -
  have "sint x < 2 ^ 31"
    using sint_lt [of x] by simp
  with assms show ?thesis
    by (simp add: sint_word_ariths signed_take_bit_int_eq_self)
qed

lemma held_not_last:
  fixes x :: "32 word"
  assumes "1 < sint x"
  shows "x - 1 \<noteq> 0" and "\<not> sint (x - 1) < 0" and "0 < sint (x - 1)"
proof -
  from assms have s: "sint (x - 1) = sint x - 1"
    by (intro sint_dec) simp
  with assms show "\<not> sint (x - 1) < 0" "0 < sint (x - 1)" by simp_all
  from assms s show "x - 1 \<noteq> 0" by auto
qed

lemma deleteRef_held:
  assumes "c < length (store w)" and "1 < sint (refcount (store w ! c))"
  shows "deleteRef w c = Inr (None, False, add_refcount w c (- 1))"
  using assms held_not_last [OF assms(2)]
  by (subst deleteRef.simps) (simp add: refcount_add_refcount)

section \<open>Facts about the chunk list\<close>

lemma chunk_path_append:
  "chunk_path f st p (as @ bs) q \<longleftrightarrow> (\<exists>m. chunk_path f st p as m \<and> chunk_path f st m bs q)"
  by (induction as arbitrary: p) auto

lemma chunk_path_field:
  assumes "\<And>x. f (g x) = f x"
  shows "chunk_path f (st[c := g (st ! c)]) p cs q = chunk_path f st p cs q"
proof (induction cs arbitrary: p)
  case Nil
  show ?case by simp
next
  case (Cons a cs)
  have "f (st[c := g (st ! c)] ! a) = f (st ! a)"
    using assms by (rule nth_update_field)
  with Cons show ?case by simp
qed

lemma chunk_path_update_other:
  "u \<notin> set cs \<Longrightarrow> chunk_path f (st[u := v]) p cs q = chunk_path f st p cs q"
  by (induction cs arbitrary: p) auto

lemma chunk_path_bound: "chunk_path f st p cs q \<Longrightarrow> c \<in> set cs \<Longrightarrow> c < length st"
  by (induction cs arbitrary: p) auto

lemma chunk_path_add_refcount [simp]:
  "chunk_path head_next (store (add_refcount w c n)) p cs q = chunk_path head_next (store w) p cs q"
  "chunk_path head_prev (store (add_refcount w c n)) p cs q = chunk_path head_prev (store w) p cs q"
  by (simp_all add: add_refcount_def chunk_path_field)

lemma well_linked_add_refcount [simp]:
  "well_linked (add_refcount w c n) cs = well_linked w cs"
  by (simp add: well_linked_def) (simp add: add_refcount_def)

lemma well_linked_disk [simp]: "well_linked (w\<lparr>disk := d\<rparr>) cs = well_linked w cs"
  by (simp add: well_linked_def)

lemma well_linked_bound: "well_linked w cs \<Longrightarrow> c \<in> set cs \<Longrightarrow> c < length (store w)"
  by (auto simp: well_linked_def dest: chunk_path_bound)

text \<open>Taking one chunk out of a well linked list.\<close>

lemma unlink_well_linked:
  assumes "well_linked w (as @ c # bs)"
  shows "well_linked (unlink_chunk w c) (as @ bs)"
proof -
  from assms have dist: "distinct (as @ c # bs)"
    and fwd: "chunk_path head_next (store w) (first_chunk w) (as @ c # bs) None"
    and bwd: "chunk_path head_prev (store w) (last_chunk w) (rev bs @ c # rev as) None"
    by (simp_all add: well_linked_def)
  from fwd obtain m where
    f1: "chunk_path head_next (store w) (first_chunk w) as (Some c)"
    and cl: "c < length (store w)"
    and f2: "chunk_path head_next (store w) (head_next (store w ! c)) bs None"
    by (auto simp: chunk_path_append)
  from bwd have
    b1: "chunk_path head_prev (store w) (last_chunk w) (rev bs) (Some c)"
    and b2: "chunk_path head_prev (store w) (head_prev (store w ! c)) (rev as) None"
    by (auto simp: chunk_path_append)
  show ?thesis
  proof (cases as rule: rev_cases)
    case Nil
    note asn = Nil
    with b2 have hp: "head_prev (store w ! c) = None" by simp
    show ?thesis
    proof (cases bs)
      case Nil
      with f2 have "head_next (store w ! c) = None" by simp
      with hp asn Nil show ?thesis
        by (simp add: unlink_chunk_def well_linked_def st_defs)
    next
      case (Cons n bs')
      with f2 have hn: "head_next (store w ! c) = Some n" by simp
      from b1 Cons have b1': "chunk_path head_prev (store w) (last_chunk w) (rev bs') (Some n)"
        and nl: "n < length (store w)" and np: "head_prev (store w ! n) = Some c"
        by (auto simp: chunk_path_append)
      from dist Cons have nbs: "n \<notin> set bs'" by simp
      have "chunk_path head_next (store w) (Some n) (n # bs') None"
        using f2 hn Cons by simp
      moreover have "chunk_path head_prev ((store w)[n := (store w ! n)\<lparr>head_prev := None\<rparr>])
          (last_chunk w) (rev bs' @ [n]) None"
        using b1' nl nbs by (simp add: chunk_path_append chunk_path_update_other)
      ultimately show ?thesis
        using hp hn asn Cons dist
        by (simp add: unlink_chunk_def well_linked_def st_defs chunk_path_field)
    qed
  next
    case (snoc as' p)
    note ass = snoc
    with b2 have hp: "head_prev (store w ! c) = Some p" and pl: "p < length (store w)"
      and b2': "chunk_path head_prev (store w) (head_prev (store w ! p)) (rev as') None"
      by simp_all
    from f1 ass have f1': "chunk_path head_next (store w) (first_chunk w) as' (Some p)"
      by (auto simp: chunk_path_append)
    from dist ass have pas: "p \<notin> set as'" "p \<notin> set bs" "p \<noteq> c" by auto
    show ?thesis
    proof (cases bs)
      case Nil
      with f2 have hn: "head_next (store w ! c) = None" by simp
      have "chunk_path head_next ((store w)[p := (store w ! p)\<lparr>head_next := None\<rparr>])
          (first_chunk w) (as' @ [p]) None"
        using f1' pl pas by (simp add: chunk_path_append chunk_path_update_other)
      moreover have "chunk_path head_prev (store w) (Some p) (p # rev as') None"
        using b2' pl by simp
      ultimately show ?thesis
        using hp hn ass Nil dist
        by (simp add: unlink_chunk_def well_linked_def st_defs chunk_path_field)
    next
      case (Cons n bs')
      with f2 have hn: "head_next (store w ! c) = Some n" and nl: "n < length (store w)"
        and f2': "chunk_path head_next (store w) (head_next (store w ! n)) bs' None"
        by simp_all
      from b1 Cons have b1': "chunk_path head_prev (store w) (last_chunk w) (rev bs') (Some n)"
        by (auto simp: chunk_path_append)
      from dist Cons ass have nbs: "n \<notin> set bs'" "n \<notin> set as'" "n \<noteq> p" by auto
      from dist Cons ass have pbs: "p \<notin> set bs'" by auto
      let ?st1 = "(store w)[p := (store w ! p)\<lparr>head_next := Some n\<rparr>]"
      let ?st2 = "?st1[n := (?st1 ! n)\<lparr>head_prev := Some p\<rparr>]"
      have fw: "chunk_path head_next ?st2 (first_chunk w) (as' @ p # n # bs') None"
      proof -
        have "chunk_path head_next ?st1 (first_chunk w) (as' @ p # n # bs') None"
          using f1' f2' pl nl pas nbs pbs
          by (simp add: chunk_path_append chunk_path_update_other)
        then show ?thesis by (simp add: chunk_path_field)
      qed
      have bw: "chunk_path head_prev ?st2 (last_chunk w) (rev bs' @ n # p # rev as') None"
      proof -
        have "chunk_path head_prev (store w) (last_chunk w) (rev bs') (Some n)"
          by (rule b1')
        moreover have "chunk_path head_prev (store w) (head_prev (store w ! p)) (rev as') None"
          by (rule b2')
        ultimately have
          "chunk_path head_prev ((store w)[n := (store w ! n)\<lparr>head_prev := Some p\<rparr>])
             (last_chunk w) (rev bs' @ n # p # rev as') None"
          using pl nl pas nbs pbs
          by (simp add: chunk_path_append chunk_path_update_other)
        moreover have "chunk_path head_prev ?st2 (last_chunk w) (rev bs' @ n # p # rev as') None
          = chunk_path head_prev ((store w)[n := (store w ! n)\<lparr>head_prev := Some p\<rparr>])
             (last_chunk w) (rev bs' @ n # p # rev as') None"
        proof -
          have "?st2 = ((store w)[n := (store w ! n)\<lparr>head_prev := Some p\<rparr>])
                  [p := ((store w)[n := (store w ! n)\<lparr>head_prev := Some p\<rparr>] ! p)\<lparr>head_next := Some n\<rparr>]"
            using nbs pl nl by (simp add: list_update_swap)
          then show ?thesis by (simp add: chunk_path_field)
        qed
        ultimately show ?thesis by simp
      qed
      show ?thesis
        using hp hn ass Cons dist fw bw
        by (simp add: unlink_chunk_def well_linked_def st_defs)
    qed
  qed
qed

lemma add_refcount_frame [simp]:
  "disk (add_refcount w c n) = disk w"
  "journal (add_refcount w c n) = journal w"
  "maxSize (add_refcount w c n) = maxSize w"
  "pathPrefix (add_refcount w c n) = pathPrefix w"
  "pathSuffix (add_refcount w c n) = pathSuffix w"
  by (simp_all add: add_refcount_def)

lemma add_refcount_fields [simp]:
  "Path (store (add_refcount w c n) ! x) = Path (store w ! x)"
  "Type (store (add_refcount w c n) ! x) = Type (store w ! x)"
  "head_next (store (add_refcount w c n) ! x) = head_next (store w ! x)"
  "head_prev (store (add_refcount w c n) ! x) = head_prev (store w ! x)"
  by (simp_all add: add_refcount_def nth_update_field)

lemma unlink_frame [simp]:
  "disk (unlink_chunk w c) = disk w"
  "maxSize (unlink_chunk w c) = maxSize w"
  "pathPrefix (unlink_chunk w c) = pathPrefix w"
  "pathSuffix (unlink_chunk w c) = pathSuffix w"
  "writer (journal (unlink_chunk w c)) = writer (journal w)"
  "position (journal (unlink_chunk w c)) = position (journal w)"
  by (simp_all add: unlink_chunk_def Let_def st_defs split: option.splits)

lemma unlink_fields [simp]:
  "Path (store (unlink_chunk w c) ! x) = Path (store w ! x)"
  "Type (store (unlink_chunk w c) ! x) = Type (store w ! x)"
  by (simp_all add: unlink_chunk_def Let_def st_defs nth_update_field split: option.splits)

lemma add_refcount_cancel:
  "add_refcount (add_refcount w c n) c (- n) = w"
proof (cases "c < length (store w)")
  case True
  then show ?thesis by (simp add: add_refcount_def)
next
  case False
  then show ?thesis by (simp add: add_refcount_def list_update_beyond)
qed

lemma add_refcount_cancel' [simp]:
  "add_refcount (add_refcount w c 1) c (- 1) = w"
  "add_refcount (add_refcount w c (- 1)) c 1 = w"
  using add_refcount_cancel [of w c 1] add_refcount_cancel [of w c "- 1"] by simp_all

lemma well_linked_neighbours:
  assumes "well_linked w (as @ c # bs)"
  shows "c < length (store w)"
    and "head_prev (store w ! c) = (if as = [] then None else Some (last as))"
    and "head_next (store w ! c) = (if bs = [] then None else Some (hd bs))"
proof -
  from assms have
    fwd: "chunk_path head_next (store w) (first_chunk w) (as @ c # bs) None"
    and bwd: "chunk_path head_prev (store w) (last_chunk w) (rev bs @ c # rev as) None"
    by (simp_all add: well_linked_def)
  from fwd show "c < length (store w)"
    by (auto simp: chunk_path_append)
  from bwd have "chunk_path head_prev (store w) (head_prev (store w ! c)) (rev as) None"
    by (auto simp: chunk_path_append)
  then show "head_prev (store w ! c) = (if as = [] then None else Some (last as))"
    by (cases as rule: rev_cases) auto
  from fwd have "chunk_path head_next (store w) (head_next (store w ! c)) bs None"
    by (auto simp: chunk_path_append)
  then show "head_next (store w ! c) = (if bs = [] then None else Some (hd bs))"
    by (cases bs) auto
qed

lemma well_linked_ends:
  assumes "well_linked w cs"
  shows "first_chunk w = (if cs = [] then None else Some (hd cs))"
    and "last_chunk w = (if cs = [] then None else Some (last cs))"
proof -
  from assms show "first_chunk w = (if cs = [] then None else Some (hd cs))"
    by (cases cs) (auto simp: well_linked_def)
  from assms show "last_chunk w = (if cs = [] then None else Some (last cs))"
    by (cases cs rule: rev_cases) (auto simp: well_linked_def)
qed

text \<open>The chunk that is taken out keeps its own two pointers.\<close>

lemma unlink_self:
  assumes "well_linked w (as @ c # bs)"
  shows "store (unlink_chunk w c) ! c = store w ! c"
proof -
  from assms have d: "distinct (as @ c # bs)" by (simp add: well_linked_def)
  note nb = well_linked_neighbours [OF assms]
  have "last as \<noteq> c" if "as \<noteq> []"
    using d that by (cases as rule: rev_cases) auto
  moreover have "hd bs \<noteq> c" if "bs \<noteq> []"
    using d that by (cases bs) auto
  ultimately show ?thesis
    using nb by (auto simp: unlink_chunk_def Let_def st_defs)
qed

lemma deleteRef_last_reference:
  assumes "c < length (store w)" and "refcount (store w ! c) = 1"
    and "head_prev (store w ! c) = Some p"
  shows "deleteRef w c =
      (case deleteRef (add_refcount w c (- 1)) p of
         Inl pn \<Rightarrow> Inl pn
       | Inr (Some err, destroyed, w') \<Rightarrow> Inr (Some err, False, add_refcount w' c 1)
       | Inr (None, destroyed, w') \<Rightarrow> remove_and_unlink w' c)"
  using assms by (subst deleteRef.simps) (simp add: refcount_add_refcount)

lemma deleteRef_last_reference_newest:
  assumes "c < length (store w)" and "refcount (store w ! c) = 1"
    and "head_prev (store w ! c) = None"
  shows "deleteRef w c = remove_and_unlink (add_refcount w c (- 1)) c"
  using assms by (subst deleteRef.simps) (simp add: refcount_add_refcount)


section \<open>Facts about \<open>newChunk\<close> and \<open>Write\<close>\<close>

lemma frame_refl [simp]: "frame w w"
  by (simp add: frame_def)

lemma frame_trans: "frame a b \<Longrightarrow> frame b c \<Longrightarrow> frame a c"
  by (simp add: frame_def)

lemma frame_add_refcount [simp]: "frame w (add_refcount w c n)"
  by (simp add: frame_def)

lemma unlink_journal [simp]:
  "key (journal (unlink_chunk w c)) = key (journal w)"
  "newChunkListeners (journal (unlink_chunk w c)) = newChunkListeners (journal w)"
  "flushListeners (journal (unlink_chunk w c)) = flushListeners (journal w)"
  by (simp_all add: unlink_chunk_def Let_def st_defs split: option.splits)

lemma frame_remove_and_unlink:
  "remove_and_unlink v x = Inr (e, d, v') \<Longrightarrow> frame v v'"
  by (auto simp: remove_and_unlink_def os_Remove_def frame_def split: option.splits)

lemma deleteRef_rel:
  assumes refl: "\<And>w. R w w"
    and trans: "\<And>a b c. R a b \<Longrightarrow> R b c \<Longrightarrow> R a c"
    and step1: "\<And>w c n. R w (add_refcount w c n)"
    and step2: "\<And>v x e d v'. remove_and_unlink v x = Inr (e, d, v') \<Longrightarrow> R v v'"
  shows "deleteRef w x = Inr (e, d, w') \<Longrightarrow> R w w'"
proof (induction w x arbitrary: e d w' rule: deleteRef.induct)
  case (1 w x)
  from "1.prems"(1) have xl: "x < length (store w)"
    by (subst (asm) deleteRef.simps) (simp split: if_splits)
  let ?w1 = "add_refcount w x (- 1)"
  have r1: "R w ?w1" by (rule step1)
  show ?case
  proof (cases "refcount (store ?w1 ! x) = 0")
    case False
    with "1.prems"(1) xl have "w' = ?w1"
      by (subst (asm) deleteRef.simps) (auto split: if_splits)
    with r1 show ?thesis by simp
  next
    case z: True
    show ?thesis
    proof (cases "head_prev (store ?w1 ! x)")
      case None
      with "1.prems"(1) xl z have "remove_and_unlink ?w1 x = Inr (e, d, w')"
        by (subst (asm) deleteRef.simps) simp
      from trans [OF r1 step2 [OF this]] show ?thesis .
    next
      case (Some p)
      from "1.prems"(1) xl z Some obtain e2 d2 w2 where
        r: "deleteRef ?w1 p = Inr (e2, d2, w2)"
        by (subst (asm) deleteRef.simps) (auto split: sum.splits)
      from "1.IH" [OF _ z Some r] xl have ih: "R ?w1 w2" by simp
      show ?thesis
      proof (cases e2)
        case None
        with "1.prems"(1) xl z Some r have "remove_and_unlink w2 x = Inr (e, d, w')"
          by (subst (asm) deleteRef.simps) simp
        from trans [OF trans [OF r1 ih] step2 [OF this]] show ?thesis .
      next
        case (Some err)
        with "1.prems"(1) xl z \<open>head_prev (store ?w1 ! x) = Some p\<close> r
        have "w' = add_refcount w2 x 1"
          by (subst (asm) deleteRef.simps) simp
        with trans [OF trans [OF r1 ih] step1 [of w2 x 1]] show ?thesis by simp
      qed
    qed
  qed
qed

lemma deleteRef_frame: "deleteRef w x = Inr (e, d, w') \<Longrightarrow> frame w w'"
  by (rule deleteRef_rel [where R = frame])
    (auto intro: frame_trans frame_remove_and_unlink)

lemma deleteRef_Path:
  "deleteRef w x = Inr (e, d, w') \<Longrightarrow> Path (store w' ! y) = Path (store w ! y)"
  by (rule deleteRef_rel [where R = "\<lambda>a b. \<forall>y. Path (store b ! y) = Path (store a ! y)",
        THEN spec])
    (auto simp: remove_and_unlink_def os_Remove_def split: option.splits)

lemma unlink_refcount_count [simp]:
  "dq_count (chunks (journal (unlink_chunk w c))) = dq_count (chunks (journal w)) - 1"
  by (simp add: unlink_chunk_def Let_def st_defs split: option.splits)

text \<open>Listeners only add references.\<close>

lemma notifyListeners_frame: "frame w (notifyListeners ls w c)"
proof (induction ls arbitrary: w)
  case Nil
  show ?case by (simp add: notifyListeners_def)
next
  case (Cons l ls)
  have "notifyListeners (l # ls) w c = notifyListeners ls (add_refcount w c 1) c"
    by (simp add: notifyListeners_def newChunkWrapper_def)
  with frame_trans [OF frame_add_refcount Cons [of "add_refcount w c 1"]] show ?case
    by simp
qed

lemma notifyListeners_store:
  "first_chunk (notifyListeners ls w c) = first_chunk w \<and>
   last_chunk (notifyListeners ls w c) = last_chunk w \<and>
   disk (notifyListeners ls w c) = disk w \<and>
   head_prev (store (notifyListeners ls w c) ! x) = head_prev (store w ! x) \<and>
   head_next (store (notifyListeners ls w c) ! x) = head_next (store w ! x) \<and>
   Path (store (notifyListeners ls w c) ! x) = Path (store w ! x) \<and>
   Type (store (notifyListeners ls w c) ! x) = Type (store w ! x) \<and>
   (x \<noteq> c \<longrightarrow> refcount (store (notifyListeners ls w c) ! x) = refcount (store w ! x))"
proof (induction ls arbitrary: w)
  case Nil
  show ?case by (simp add: notifyListeners_def)
next
  case (Cons l ls)
  have "notifyListeners (l # ls) w c = notifyListeners ls (add_refcount w c 1) c"
    by (simp add: notifyListeners_def newChunkWrapper_def)
  with Cons [of "add_refcount w c 1"] show ?case
    by (simp add: refcount_add_refcount)
qed

lemma deleteRef_first:
  assumes dr: "deleteRef w x = Inr (e, d, w')"
    and hp: "head_prev (store w ! x) = Some p"
    and pl: "p < length (store w)"
    and held: "1 < sint (refcount (store w ! p))"
    and ne: "p \<noteq> x"
  shows "first_chunk w' = first_chunk w"
proof -
  from dr have xl: "x < length (store w)"
    by (subst (asm) deleteRef.simps) (simp split: if_splits)
  show ?thesis
  proof (cases "refcount (store w ! x) = 1")
    case True
    let ?v = "add_refcount (add_refcount w x (- 1)) p (- 1)"
    have "deleteRef (add_refcount w x (- 1)) p = Inr (None, False, ?v)"
      using pl held ne by (intro deleteRef_held) (simp_all add: refcount_add_refcount)
    with deleteRef_last_reference [OF xl True hp] dr
    have r: "remove_and_unlink ?v x = Inr (e, d, w')" by simp
    have "head_prev (store ?v ! x) = Some p"
      using hp by simp
    with r show ?thesis
      by (auto simp: remove_and_unlink_def unlink_chunk_def Let_def st_defs
          split: sum.splits option.splits)
  next
    case False
    with dr xl have "w' = add_refcount w x (- 1)"
      by (subst (asm) deleteRef.simps) (auto simp: refcount_add_refcount split: if_splits)
    then show ?thesis by simp
  qed
qed

lemma install_writer_facts:
  "frame (w\<lparr>journal := (journal w)\<lparr>writer := Some fh, position := 0\<rparr>\<rparr>) (install_writer w fh c)"
  "first_chunk (install_writer w fh c) = first_chunk w"
  "disk (install_writer w fh c) = disk w"
  using notifyListeners_frame
    [of "w\<lparr>journal := (journal w)\<lparr>writer := Some fh, position := 0\<rparr>\<rparr>" "newChunkListeners (journal w)" c]
    notifyListeners_store
    [of "newChunkListeners (journal w)" "w\<lparr>journal := (journal w)\<lparr>writer := Some fh, position := 0\<rparr>\<rparr>" c]
  by (simp_all add: install_writer_def notifyNewChunkListeners_def)

lemma link_new_chunk_facts:
  assumes "\<forall>old. first_chunk w = Some old \<longrightarrow> old < length (store w)"
  shows "length (store (link_new_chunk w ch)) = Suc (length (store w))"
    and "first_chunk (link_new_chunk w ch) = Some (length (store w))"
    and "disk (link_new_chunk w ch) = disk w"
    and "writer (journal (link_new_chunk w ch)) = writer (journal w)"
    and "key (journal (link_new_chunk w ch)) = key (journal w)"
    and "newChunkListeners (journal (link_new_chunk w ch)) = newChunkListeners (journal w)"
    and "flushListeners (journal (link_new_chunk w ch)) = flushListeners (journal w)"
    and "pathPrefix (link_new_chunk w ch) = pathPrefix w"
    and "pathSuffix (link_new_chunk w ch) = pathSuffix w"
    and "maxSize (link_new_chunk w ch) = maxSize w"
    and "refcount (store (link_new_chunk w ch) ! length (store w)) = refcount ch + 1"
    and "first_chunk w = Some old \<Longrightarrow>
           head_prev (store (link_new_chunk w ch) ! old) = Some (length (store w))"
    and "Path (store (link_new_chunk w ch) ! length (store w)) = Path ch"
    and "Type (store (link_new_chunk w ch) ! length (store w)) = Type ch"
  using assms
  by (auto simp: link_new_chunk_def Let_def st_defs nth_append nth_list_update
      split: option.splits)

lemma nth_update_if:
  "xs[i := v] ! j = (if j = i \<and> i < length xs then v else xs ! j)"
  by (cases "i < length xs"; cases "j = i") (simp_all add: list_update_beyond)

lemma finalizeChunk_facts:
  assumes "finalizeChunk cd w old = (None, w2)"
  shows "contents (disk w2) = contents (disk w)" "handles (disk w2) = handles (disk w)"
    "ninode (disk w2) = ninode (disk w)" "nhandle (disk w2) = nhandle (disk w)"
    "length (store w2) = length (store w)"
    "writer (journal w2) = writer (journal w)" "position (journal w2) = position (journal w)"
    "first_chunk w2 = first_chunk w"
    "head_prev (store w2 ! x) = head_prev (store w ! x)"
    "x \<noteq> old \<Longrightarrow> refcount (store w2 ! x) = refcount (store w ! x)"
proof -
  let ?newPath = "pathPrefix w @
      BuildJournalPathWithTSuffix cd (key (journal w)) Rest (TSuffix (store w ! old)) @ pathSuffix w"
  from assms obtain d where
    rn: "os_Rename (disk w) (Path (store w ! old)) ?newPath = Inr d"
    and w2: "w2 = notifyFlushListeners
        (w\<lparr>disk := d, store := (store w)[old := (store w ! old)\<lparr>Path := ?newPath, Type := Rest\<rparr>]\<rparr>) old"
    by (auto simp: finalizeChunk_def Let_def split: sum.splits)
  let ?v = "w\<lparr>disk := d, store := (store w)[old := (store w ! old)\<lparr>Path := ?newPath, Type := Rest\<rparr>]\<rparr>"
  from rn have d: "contents d = contents (disk w)" "handles d = handles (disk w)"
    "ninode d = ninode (disk w)" "nhandle d = nhandle (disk w)"
    by (auto simp: os_Rename_def split: option.splits)
  note fr = notifyListeners_frame [of ?v "flushListeners (journal w)" old]
  note st = notifyListeners_store [of "flushListeners (journal w)" ?v old x]
  from fr d show "contents (disk w2) = contents (disk w)" "handles (disk w2) = handles (disk w)"
    "ninode (disk w2) = ninode (disk w)" "nhandle (disk w2) = nhandle (disk w)"
    "length (store w2) = length (store w)"
    "writer (journal w2) = writer (journal w)" "position (journal w2) = position (journal w)"
    by (simp_all add: w2 notifyFlushListeners_def frame_def)
  from st show "first_chunk w2 = first_chunk w"
    by (simp add: w2 notifyFlushListeners_def)
  from st show "head_prev (store w2 ! x) = head_prev (store w ! x)"
    by (simp add: w2 notifyFlushListeners_def nth_update_if)
  from st show "x \<noteq> old \<Longrightarrow> refcount (store w2 ! x) = refcount (store w ! x)"
    by (simp add: w2 notifyFlushListeners_def nth_update_if)
qed

lemma seal_and_install_success:
  assumes si: "seal_and_install cd wL oldHead fh c = Inr (Inr c', w1)"
    and ol: "\<forall>old. oldHead = Some old \<longrightarrow>
         old \<noteq> c \<and> c < length (store wL) \<and> head_prev (store wL ! old) = Some c"
    and rc: "refcount (store wL ! c) = 2"
  shows "c' = c" and "length (store w1) = length (store wL)"
    and "first_chunk w1 = first_chunk wL"
    and "writer (journal w1) = Some fh" and "position (journal w1) = 0"
    and "contents (disk w1) = contents (disk wL)"
    and "handles (disk w1) = handles (disk wL)"
proof -
  have "c' = c \<and> length (store w1) = length (store wL) \<and> first_chunk w1 = first_chunk wL \<and>
    writer (journal w1) = Some fh \<and> position (journal w1) = 0 \<and>
    contents (disk w1) = contents (disk wL) \<and> handles (disk w1) = handles (disk wL)"
  proof (cases oldHead)
    case None
    with si have w1: "w1 = install_writer wL fh c" and c: "c' = c"
      by (auto simp: seal_and_install_def)
    from install_writer_facts [where w = wL and fh = fh and c = c] c show ?thesis
      by (simp add: w1 frame_def)
  next
    case (Some old)
    obtain e1 w2 where fin: "finalizeChunk cd wL old = (e1, w2)"
      by (cases "finalizeChunk cd wL old")
    from si Some fin have e1: "e1 = None"
      by (cases e1) (simp_all add: seal_and_install_def)
    note F = finalizeChunk_facts [OF fin [unfolded e1]]
    from si Some fin e1 obtain r where dr0: "deleteRef w2 old = Inr r"
      by (cases "deleteRef w2 old") (simp_all add: seal_and_install_def)
    obtain e2 destroyed w3 where r: "r = (e2, destroyed, w3)"
      by (cases r)
    from si Some fin e1 dr0 r have e2: "e2 = None"
      by (cases e2) (simp_all add: seal_and_install_def)
    from dr0 r e2 have dr: "deleteRef w2 old = Inr (None, destroyed, w3)" by simp
    from si Some fin e1 dr have w1: "w1 = install_writer w3 fh c" and c: "c' = c"
      by (auto simp: seal_and_install_def)
    note fr = deleteRef_frame [OF dr]
    from ol Some have o: "old \<noteq> c" "c < length (store wL)"
      "head_prev (store wL ! old) = Some c" by simp_all
    have hp: "head_prev (store w2 ! old) = Some c"
      using o by (simp add: F)
    have "refcount (store w2 ! c) = 2"
      using o rc by (simp add: F(10))
    then have "first_chunk w3 = first_chunk w2"
      using o by (intro deleteRef_first [OF dr hp]) (simp_all add: F)
    with install_writer_facts [where w = w3 and fh = fh and c = c] fr F c show ?thesis
      by (simp add: w1 frame_def)
  qed
  then show "c' = c" and "length (store w1) = length (store wL)"
    and "first_chunk w1 = first_chunk wL"
    and "writer (journal w1) = Some fh" and "position (journal w1) = 0"
    and "contents (disk w1) = contents (disk wL)"
    and "handles (disk w1) = handles (disk wL)"
    by simp_all
qed

lemma newChunk_success:
  assumes nc: "newChunk cd now rnd w = Inr (Inr c, w1)"
    and ptr: "\<forall>old. first_chunk w = Some old \<longrightarrow> old < length (store w)"
  shows "c = length (store w)" and "length (store w1) = Suc (length (store w))"
    and "first_chunk w1 = Some (length (store w))"
    and "writer (journal w1) = Some (nhandle (disk w))" and "position (journal w1) = 0"
    and "contents (disk w1) = (contents (disk w))(ninode (disk w) := [])"
    and "handles (disk w1) =
           (case writer (journal w) of
              None \<Rightarrow> (handles (disk w))(nhandle (disk w) \<mapsto> ninode (disk w))
            | Some wr \<Rightarrow> ((handles (disk w))(nhandle (disk w) \<mapsto> ninode (disk w)))(wr := None))"
proof -
  let ?ch = "new_chunk_object w (BuildJournalPath cd (key (journal w)) Head now rnd)"
  obtain r1 where op0: "os_OpenFile_create_excl (disk w) (Path ?ch) = Inr r1"
    using nc by (cases "os_OpenFile_create_excl (disk w) (Path ?ch)") (simp_all add: newChunk_def Let_def)
  obtain fh d1 where r1: "r1 = (fh, d1)" by (cases r1)
  from op0 r1 have op: "os_OpenFile_create_excl (disk w) (Path ?ch) = Inr (fh, d1)" by simp
  then have d1: "fh = nhandle (disk w)" "contents d1 = (contents (disk w))(ninode (disk w) := [])"
    "handles d1 = (handles (disk w))(nhandle (disk w) \<mapsto> ninode (disk w))"
    by (auto simp: os_OpenFile_create_excl_def split: option.splits)
  let ?cl = "case writer (journal w) of None \<Rightarrow> Inr d1 | Some wr \<Rightarrow> file_Close d1 wr"
  obtain d2 where cl: "?cl = Inr d2"
    using nc op by (cases ?cl) (simp_all add: newChunk_def Let_def)
  then have d2: "contents d2 = contents d1"
    "handles d2 = (case writer (journal w) of None \<Rightarrow> handles d1 | Some wr \<Rightarrow> (handles d1)(wr := None))"
    by (auto simp: file_Close_def split: option.splits)
  let ?wL = "link_new_chunk (w\<lparr>disk := d2\<rparr>) ?ch"
  from nc op cl have si: "seal_and_install cd ?wL (first_chunk w) fh (length (store w)) = Inr (Inr c, w1)"
    by (simp add: newChunk_def Let_def)
  from ptr have ptr': "\<forall>old. first_chunk (w\<lparr>disk := d2\<rparr>) = Some old \<longrightarrow> old < length (store (w\<lparr>disk := d2\<rparr>))"
    by simp
  note L = link_new_chunk_facts [OF ptr', where ch = ?ch]
  have ol: "\<forall>old. first_chunk w = Some old \<longrightarrow>
         old \<noteq> length (store w) \<and> length (store w) < length (store ?wL) \<and>
         head_prev (store ?wL ! old) = Some (length (store w))"
    using ptr L(1) L(12) by auto
  have rc: "refcount (store ?wL ! length (store w)) = 2"
    using L(11) by (simp add: new_chunk_object_def)
  note S = seal_and_install_success [OF si ol rc]
  from S L d1 d2 show "c = length (store w)" and "length (store w1) = Suc (length (store w))"
    and "first_chunk w1 = Some (length (store w))"
    and "writer (journal w1) = Some (nhandle (disk w))" and "position (journal w1) = 0"
    and "contents (disk w1) = (contents (disk w))(ninode (disk w) := [])"
    and "handles (disk w1) =
           (case writer (journal w) of
              None \<Rightarrow> (handles (disk w))(nhandle (disk w) \<mapsto> ninode (disk w))
            | Some wr \<Rightarrow> ((handles (disk w))(nhandle (disk w) \<mapsto> ninode (disk w)))(wr := None))"
    by (simp_all split: option.splits)
qed

lemma sint_of_nat_64:
  assumes "n < 2 ^ 63"
  shows "sint (of_nat n :: 64 word) = int n"
proof -
  have "sint (of_nat n :: 64 word) = sint (word_of_int (int n) :: 64 word)"
    by simp
  also have "\<dots> = signed_take_bit 63 (int n)"
    by (simp only: sint_sbintrunc') simp
  also have "\<dots> = int n"
    using assms by (intro signed_take_bit_int_eq_self) simp_all
  finally show ?thesis .
qed

lemma sint_diff_64:
  fixes a b :: "64 word"
  assumes "0 \<le> sint a" and "0 \<le> sint b"
  shows "sint (a - b) = sint a - sint b"
proof -
  have "sint a < 2 ^ 63" "sint b < 2 ^ 63"
    using sint_lt [of a] sint_lt [of b] by simp_all
  with assms show ?thesis
    by (simp add: sint_word_diff signed_take_bit_int_eq_self)
qed

lemma size_check:
  assumes "writer (journal w) = Some wr"
    and "0 \<le> sint (position (journal w))" and "0 \<le> sint (maxSize w)"
    and "length data < 2 ^ 63"
  shows "needs_new_chunk data w \<longleftrightarrow>
           sint (maxSize w) < sint (position (journal w)) + int (length data)"
  using assms
  by (simp add: needs_new_chunk_def sint_of_nat_64 sint_diff_64) linarith

lemma write_to_writer_success:
  assumes "write_to_writer data w = Inr (None, w')"
  shows "\<exists>wr i. writer (journal w) = Some wr \<and> handles (disk w) wr = Some i \<and>
           contents (disk w') = (contents (disk w))(i := contents (disk w) i @ data) \<and>
           handles (disk w') = handles (disk w) \<and>
           store w' = store w \<and> chunks (journal w') = chunks (journal w) \<and>
           writer (journal w') = writer (journal w) \<and>
           position (journal w') = position (journal w) + of_nat (length data)"
  using assms
  by (auto simp: write_to_writer_def file_Write_def split: option.splits if_splits)

lemma write_to_writer_error:
  assumes "write_to_writer data w = Inr (Some err, w')"
  shows "w' = w"
  using assms
  by (auto simp: write_to_writer_def file_Write_def split: option.splits if_splits)

lemma abandon_new_file_contents [simp]:
  "contents (disk (abandon_new_file w fh c)) = contents (disk w)"
  by (simp add: abandon_new_file_def remove_ignoring_error_def close_ignoring_error_def
      os_Remove_def file_Close_def split: option.splits)

lemma finalizeChunk_contents:
  assumes "finalizeChunk cd w old = (e, w2)"
  shows "contents (disk w2) = contents (disk w)"
proof (cases e)
  case None
  with assms show ?thesis by (simp add: finalizeChunk_facts(1))
next
  case (Some err)
  with assms have "w2 = w"
    by (auto simp: finalizeChunk_def Let_def split: sum.splits)
  then show ?thesis by simp
qed

lemma seal_and_install_contents:
  assumes "seal_and_install cd wL oldHead fh c = Inr (ec, w1)"
  shows "contents (disk w1) = contents (disk wL)"
proof (cases oldHead)
  case None
  with assms install_writer_facts(3) [of wL fh c] show ?thesis
    by (auto simp: seal_and_install_def)
next
  case (Some old)
  obtain e1 w2 where fin: "finalizeChunk cd wL old = (e1, w2)"
    by (cases "finalizeChunk cd wL old")
  note c2 = finalizeChunk_contents [OF fin]
  show ?thesis
  proof (cases e1)
    case (Some err)
    with assms \<open>oldHead = Some old\<close> fin c2 show ?thesis
      by (auto simp: seal_and_install_def)
  next
    case None
    from assms \<open>oldHead = Some old\<close> fin None obtain r where dr0: "deleteRef w2 old = Inr r"
      by (cases "deleteRef w2 old") (simp_all add: seal_and_install_def)
    obtain e2 destroyed w3 where r: "r = (e2, destroyed, w3)" by (cases r)
    from deleteRef_frame [of w2 old e2 destroyed w3] dr0 r
    have c3: "contents (disk w3) = contents (disk w2)" by (simp add: frame_def)
    from assms \<open>oldHead = Some old\<close> fin None dr0 r c2 c3 install_writer_facts(3) [of w3 fh c]
    show ?thesis
      by (cases e2) (auto simp: seal_and_install_def)
  qed
qed

lemma newChunk_contents:
  assumes "newChunk cd now rnd w = Inr (ec, w1)" and "i \<noteq> ninode (disk w)"
  shows "contents (disk w1) i = contents (disk w) i"
proof -
  let ?ch = "new_chunk_object w (BuildJournalPath cd (key (journal w)) Head now rnd)"
  show ?thesis
  proof (cases "os_OpenFile_create_excl (disk w) (Path ?ch)")
    case (Inl err)
    with assms show ?thesis by (simp add: newChunk_def Let_def)
  next
    case (Inr r1)
    obtain fh d1 where r1: "r1 = (fh, d1)" by (cases r1)
    with Inr have op: "os_OpenFile_create_excl (disk w) (Path ?ch) = Inr (fh, d1)" by simp
    then have d1: "contents d1 = (contents (disk w))(ninode (disk w) := [])"
      by (auto simp: os_OpenFile_create_excl_def split: option.splits)
    let ?cl = "case writer (journal w) of None \<Rightarrow> Inr d1 | Some wr \<Rightarrow> file_Close d1 wr"
    show ?thesis
    proof (cases ?cl)
      case (Inl err)
      from op Inl assms(1) have "w1 = w\<lparr>disk := d1\<rparr>"
        by (auto simp: newChunk_def Let_def)
      with d1 assms(2) show ?thesis by simp
    next
      case (Inr d2)
      then have d2: "contents d2 = contents d1"
        by (auto simp: file_Close_def split: option.splits)
      from op Inr assms(1)
      have "seal_and_install cd (link_new_chunk (w\<lparr>disk := d2\<rparr>) ?ch) (first_chunk w) fh
              (length (store w)) = Inr (ec, w1)"
        by (simp add: newChunk_def Let_def)
      from seal_and_install_contents [OF this]
      have "contents (disk w1) = contents d2"
        by (simp add: link_new_chunk_def Let_def st_defs split: option.splits)
      with d1 d2 assms(2) show ?thesis by simp
    qed
  qed
qed

lemma Write_rollover_contents:
  assumes "needs_new_chunk data w" and "Write cd now rnd data w = Inr (e, w')"
    and "i \<noteq> ninode (disk w)" and "e \<noteq> None"
  shows "contents (disk w') i = contents (disk w) i"
proof -
  from assms obtain r where nc0: "newChunk cd now rnd w = Inr r"
    by (cases "newChunk cd now rnd w") (simp_all add: Write_def)
  obtain ec w1 where r: "r = (ec, w1)" by (cases r)
  note C = newChunk_contents [of cd now rnd w ec w1 i]
  show ?thesis
  proof (cases ec)
    case (Inl err)
    with assms nc0 r C show ?thesis by (simp add: Write_def)
  next
    case (Inr c)
    with assms nc0 r have "write_to_writer data w1 = Inr (e, w')"
      by (simp add: Write_def)
    with assms(4) have "w' = w1"
      by (cases e) (auto dest: write_to_writer_error)
    with nc0 r C assms(3) show ?thesis by simp
  qed
qed

lemma deleteRef_Type:
  "deleteRef w x = Inr (e, d, w') \<Longrightarrow> Type (store w' ! y) = Type (store w ! y)"
  by (rule deleteRef_rel [where R = "\<lambda>a b. \<forall>y. Type (store b ! y) = Type (store a ! y)",
        THEN spec])
    (auto simp: remove_and_unlink_def os_Remove_def split: option.splits)

text \<open>
  When the newer neighbour is held, \<open>deleteRef\<close> removes at most the file of the chunk
  it was called for.
\<close>

lemma deleteRef_first_names:
  assumes dr: "deleteRef w x = Inr (e, d, w')"
    and hp: "head_prev (store w ! x) = Some p"
    and pl: "p < length (store w)"
    and held: "1 < sint (refcount (store w ! p))"
    and ne: "p \<noteq> x"
  shows "names (disk w') = names (disk w) \<or>
         names (disk w') = (names (disk w))(Path (store w ! x) := None)"
proof -
  from dr have xl: "x < length (store w)"
    by (subst (asm) deleteRef.simps) (simp split: if_splits)
  show ?thesis
  proof (cases "refcount (store w ! x) = 1")
    case True
    let ?v = "add_refcount (add_refcount w x (- 1)) p (- 1)"
    have "deleteRef (add_refcount w x (- 1)) p = Inr (None, False, ?v)"
      using pl held ne by (intro deleteRef_held) (simp_all add: refcount_add_refcount)
    with deleteRef_last_reference [OF xl True hp] dr
    have r: "remove_and_unlink ?v x = Inr (e, d, w')" by simp
    then show ?thesis
      by (auto simp: remove_and_unlink_def os_Remove_def split: sum.splits option.splits)
  next
    case False
    with dr xl have "w' = add_refcount w x (- 1)"
      by (subst (asm) deleteRef.simps) (auto simp: refcount_add_refcount split: if_splits)
    then show ?thesis by simp
  qed
qed

lemma finalizeChunk_seal:
  assumes fin: "finalizeChunk cd w old = (None, w2)"
  shows "old < length (store w) \<Longrightarrow> Type (store w2 ! old) = Rest"
    and "old < length (store w) \<Longrightarrow> Path (store w2 ! old) = pathPrefix w @
          BuildJournalPathWithTSuffix cd (key (journal w)) Rest (TSuffix (store w ! old)) @ pathSuffix w"
    and "x \<noteq> old \<Longrightarrow> Type (store w2 ! x) = Type (store w ! x)"
    and "x \<noteq> old \<Longrightarrow> Path (store w2 ! x) = Path (store w ! x)"
    and "\<exists>i. names (disk w) (Path (store w ! old)) = Some i \<and>
           names (disk w2) = ((names (disk w))(Path (store w ! old) := None))
             (pathPrefix w @
              BuildJournalPathWithTSuffix cd (key (journal w)) Rest (TSuffix (store w ! old)) @
              pathSuffix w \<mapsto> i)"
proof -
  let ?newPath = "pathPrefix w @
      BuildJournalPathWithTSuffix cd (key (journal w)) Rest (TSuffix (store w ! old)) @ pathSuffix w"
  from fin obtain d where
    rn: "os_Rename (disk w) (Path (store w ! old)) ?newPath = Inr d"
    and w2: "w2 = notifyFlushListeners
        (w\<lparr>disk := d, store := (store w)[old := (store w ! old)\<lparr>Path := ?newPath, Type := Rest\<rparr>]\<rparr>) old"
    by (auto simp: finalizeChunk_def Let_def split: sum.splits)
  let ?v = "w\<lparr>disk := d, store := (store w)[old := (store w ! old)\<lparr>Path := ?newPath, Type := Rest\<rparr>]\<rparr>"
  note st = notifyListeners_store [of "flushListeners (journal w)" ?v old]
  from st [of old] show "old < length (store w) \<Longrightarrow> Type (store w2 ! old) = Rest"
    "old < length (store w) \<Longrightarrow> Path (store w2 ! old) = ?newPath"
    by (simp_all add: w2 notifyFlushListeners_def)
  from st [of x] show "x \<noteq> old \<Longrightarrow> Type (store w2 ! x) = Type (store w ! x)"
    by (simp add: w2 notifyFlushListeners_def nth_update_if)
  from st [of x] show "x \<noteq> old \<Longrightarrow> Path (store w2 ! x) = Path (store w ! x)"
    by (simp add: w2 notifyFlushListeners_def nth_update_if)
  from rn obtain i where "names (disk w) (Path (store w ! old)) = Some i"
    "d = (disk w)\<lparr>names := ((names (disk w))(Path (store w ! old) := None))(?newPath \<mapsto> i)\<rparr>"
    by (auto simp: os_Rename_def split: option.splits)
  with st [of old] show "\<exists>i. names (disk w) (Path (store w ! old)) = Some i \<and>
           names (disk w2) = ((names (disk w))(Path (store w ! old) := None))(?newPath \<mapsto> i)"
    by (simp add: w2 notifyFlushListeners_def)
qed

lemma install_writer_fields:
  "Path (store (install_writer w fh c) ! x) = Path (store w ! x)"
  "Type (store (install_writer w fh c) ! x) = Type (store w ! x)"
  using notifyListeners_store
    [of "newChunkListeners (journal w)" "w\<lparr>journal := (journal w)\<lparr>writer := Some fh, position := 0\<rparr>\<rparr>" c x]
  by (simp_all add: install_writer_def notifyNewChunkListeners_def)

lemma seal_and_install_sealed:
  assumes si: "seal_and_install cd wL oldHead fh c = Inr (Inr c', w1)"
    and ol: "\<forall>old. oldHead = Some old \<longrightarrow>
         old \<noteq> c \<and> c < length (store wL) \<and> head_prev (store wL ! old) = Some c"
    and rc: "refcount (store wL ! c) = 2"
  shows "Path (store w1 ! c) = Path (store wL ! c)"
    and "Type (store w1 ! c) = Type (store wL ! c)"
    and "oldHead = None \<Longrightarrow> names (disk w1) = names (disk wL)"
    and "oldHead = Some old \<Longrightarrow> old < length (store wL) \<Longrightarrow>
           Type (store w1 ! old) = Rest \<and>
           Path (store w1 ! old) = pathPrefix wL @
             BuildJournalPathWithTSuffix cd (key (journal wL)) Rest (TSuffix (store wL ! old)) @
             pathSuffix wL \<and>
           (\<exists>i. names (disk wL) (Path (store wL ! old)) = Some i \<and>
              (names (disk w1) = ((names (disk wL))(Path (store wL ! old) := None))
                 (pathPrefix wL @
                  BuildJournalPathWithTSuffix cd (key (journal wL)) Rest (TSuffix (store wL ! old)) @
                  pathSuffix wL \<mapsto> i) \<or>
               names (disk w1) = ((names (disk wL))(Path (store wL ! old) := None))
                 (pathPrefix wL @
                  BuildJournalPathWithTSuffix cd (key (journal wL)) Rest (TSuffix (store wL ! old)) @
                  pathSuffix wL := None)))"
proof -
  let ?rp = "\<lambda>old. pathPrefix wL @
      BuildJournalPathWithTSuffix cd (key (journal wL)) Rest (TSuffix (store wL ! old)) @ pathSuffix wL"
  have "Path (store w1 ! c) = Path (store wL ! c) \<and> Type (store w1 ! c) = Type (store wL ! c) \<and>
    (oldHead = None \<longrightarrow> names (disk w1) = names (disk wL)) \<and>
    (oldHead = Some old \<longrightarrow> old < length (store wL) \<longrightarrow>
       Type (store w1 ! old) = Rest \<and> Path (store w1 ! old) = ?rp old \<and>
       (\<exists>i. names (disk wL) (Path (store wL ! old)) = Some i \<and>
          (names (disk w1) = ((names (disk wL))(Path (store wL ! old) := None))(?rp old \<mapsto> i) \<or>
           names (disk w1) = ((names (disk wL))(Path (store wL ! old) := None))(?rp old := None))))"
  proof (cases oldHead)
    case None
    with si have w1: "w1 = install_writer wL fh c"
      by (auto simp: seal_and_install_def)
    from install_writer_facts(3) [of wL fh c] None show ?thesis
      by (simp add: w1 install_writer_fields)
  next
    case (Some o')
    obtain e1 w2 where fin: "finalizeChunk cd wL o' = (e1, w2)"
      by (cases "finalizeChunk cd wL o'")
    from si Some fin have e1: "e1 = None"
      by (cases e1) (simp_all add: seal_and_install_def)
    note F = finalizeChunk_facts [OF fin [unfolded e1]]
    from si Some fin e1 obtain r where dr0: "deleteRef w2 o' = Inr r"
      by (cases "deleteRef w2 o'") (simp_all add: seal_and_install_def)
    obtain e2 destroyed w3 where r: "r = (e2, destroyed, w3)"
      by (cases r)
    from si Some fin e1 dr0 r have e2: "e2 = None"
      by (cases e2) (simp_all add: seal_and_install_def)
    from dr0 r e2 have dr: "deleteRef w2 o' = Inr (None, destroyed, w3)" by simp
    from si Some fin e1 dr have w1: "w1 = install_writer w3 fh c"
      by (auto simp: seal_and_install_def)
    from ol Some have o: "o' \<noteq> c" "c < length (store wL)"
      "head_prev (store wL ! o') = Some c" by simp_all
    have hp: "head_prev (store w2 ! o') = Some c"
      using o by (simp add: F)
    have rc2: "refcount (store w2 ! c) = 2"
      using o rc by (simp add: F(10))
    have nm: "names (disk w3) = names (disk w2) \<or>
        names (disk w3) = (names (disk w2))(Path (store w2 ! o') := None)"
      using o rc2 by (intro deleteRef_first_names [OF dr hp]) (simp_all add: F)
    have fld: "Path (store w1 ! y) = Path (store w2 ! y)" "Type (store w1 ! y) = Type (store w2 ! y)" for y
      by (simp_all add: w1 install_writer_fields deleteRef_Path [OF dr] deleteRef_Type [OF dr])
    have dk: "names (disk w1) = names (disk w3)"
      by (simp add: w1 install_writer_facts(3))
    have c_keep: "Path (store w1 ! c) = Path (store wL ! c) \<and> Type (store w1 ! c) = Type (store wL ! c)"
      using o(1) by (simp add: fld finalizeChunk_seal(3,4) [OF fin [unfolded e1]])
    have sealed: "Type (store w1 ! o') = Rest \<and> Path (store w1 ! o') = ?rp o' \<and>
       (\<exists>i. names (disk wL) (Path (store wL ! o')) = Some i \<and>
          (names (disk w1) = ((names (disk wL))(Path (store wL ! o') := None))(?rp o' \<mapsto> i) \<or>
           names (disk w1) = ((names (disk wL))(Path (store wL ! o') := None))(?rp o' := None)))"
      if ol': "o' < length (store wL)"
    proof -
      note S0 = finalizeChunk_seal [OF fin [unfolded e1]]
      note S = S0(1) [OF ol'] S0(2) [OF ol'] S0(3) S0(4) S0(5)
      from S(5) obtain i where i: "names (disk wL) (Path (store wL ! o')) = Some i"
        "names (disk w2) = ((names (disk wL))(Path (store wL ! o') := None))(?rp o' \<mapsto> i)"
        by blast
      from nm i S(2) dk
      have "names (disk w1) = ((names (disk wL))(Path (store wL ! o') := None))(?rp o' \<mapsto> i) \<or>
           names (disk w1) = ((names (disk wL))(Path (store wL ! o') := None))(?rp o' := None)"
        by auto
      with i(1) S(1,2) show ?thesis by (simp add: fld)
    qed
    from c_keep sealed Some show ?thesis by auto
  qed
  then show "Path (store w1 ! c) = Path (store wL ! c)"
    and "Type (store w1 ! c) = Type (store wL ! c)"
    and "oldHead = None \<Longrightarrow> names (disk w1) = names (disk wL)"
    and "oldHead = Some old \<Longrightarrow> old < length (store wL) \<Longrightarrow>
           Type (store w1 ! old) = Rest \<and>
           Path (store w1 ! old) = pathPrefix wL @
             BuildJournalPathWithTSuffix cd (key (journal wL)) Rest (TSuffix (store wL ! old)) @
             pathSuffix wL \<and>
           (\<exists>i. names (disk wL) (Path (store wL ! old)) = Some i \<and>
              (names (disk w1) = ((names (disk wL))(Path (store wL ! old) := None))
                 (pathPrefix wL @
                  BuildJournalPathWithTSuffix cd (key (journal wL)) Rest (TSuffix (store wL ! old)) @
                  pathSuffix wL \<mapsto> i) \<or>
               names (disk w1) = ((names (disk wL))(Path (store wL ! old) := None))
                 (pathPrefix wL @
                  BuildJournalPathWithTSuffix cd (key (journal wL)) Rest (TSuffix (store wL ! old)) @
                  pathSuffix wL := None)))"
    by simp_all
qed

lemma link_new_chunk_old:
  assumes "x < length (store w)"
  shows "Path (store (link_new_chunk w ch) ! x) = Path (store w ! x)"
    and "Type (store (link_new_chunk w ch) ! x) = Type (store w ! x)"
    and "TSuffix (store (link_new_chunk w ch) ! x) = TSuffix (store w ! x)"
  using assms
  by (auto simp: link_new_chunk_def Let_def st_defs nth_append nth_list_update
      split: option.splits)

lemma newChunk_sealed:
  assumes nc: "newChunk cd now rnd w = Inr (Inr c, w1)"
    and ptr: "\<forall>old. first_chunk w = Some old \<longrightarrow> old < length (store w)"
  shows "Path (store w1 ! length (store w)) =
           pathPrefix w @ info_VariablePortion (BuildJournalPath cd (key (journal w)) Head now rnd) @
           pathSuffix w"
    and "Type (store w1 ! length (store w)) =
           info_Type (BuildJournalPath cd (key (journal w)) Head now rnd)"
    and "names (disk w)
           (pathPrefix w @ info_VariablePortion (BuildJournalPath cd (key (journal w)) Head now rnd) @
            pathSuffix w) = None"
    and "first_chunk w = None \<Longrightarrow>
           names (disk w1) = (names (disk w))
             (pathPrefix w @ info_VariablePortion (BuildJournalPath cd (key (journal w)) Head now rnd) @
              pathSuffix w \<mapsto> ninode (disk w))"
    and "first_chunk w = Some old \<Longrightarrow>
           Type (store w1 ! old) = Rest \<and>
           Path (store w1 ! old) = pathPrefix w @
             BuildJournalPathWithTSuffix cd (key (journal w)) Rest (TSuffix (store w ! old)) @
             pathSuffix w \<and>
           (\<exists>i. ((names (disk w))
                  (pathPrefix w @
                   info_VariablePortion (BuildJournalPath cd (key (journal w)) Head now rnd) @
                   pathSuffix w \<mapsto> ninode (disk w))) (Path (store w ! old)) = Some i \<and>
              (names (disk w1) =
                 (((names (disk w))
                    (pathPrefix w @
                     info_VariablePortion (BuildJournalPath cd (key (journal w)) Head now rnd) @
                     pathSuffix w \<mapsto> ninode (disk w)))
                  (Path (store w ! old) := None))
                 (pathPrefix w @
                  BuildJournalPathWithTSuffix cd (key (journal w)) Rest (TSuffix (store w ! old)) @
                  pathSuffix w \<mapsto> i) \<or>
               names (disk w1) =
                 (((names (disk w))
                    (pathPrefix w @
                     info_VariablePortion (BuildJournalPath cd (key (journal w)) Head now rnd) @
                     pathSuffix w \<mapsto> ninode (disk w)))
                  (Path (store w ! old) := None))
                 (pathPrefix w @
                  BuildJournalPathWithTSuffix cd (key (journal w)) Rest (TSuffix (store w ! old)) @
                  pathSuffix w := None)))"
proof -
  let ?info = "BuildJournalPath cd (key (journal w)) Head now rnd"
  let ?ch = "new_chunk_object w ?info"
  let ?np = "pathPrefix w @ info_VariablePortion ?info @ pathSuffix w"
  have pch: "Path ?ch = ?np" and tch: "Type ?ch = info_Type ?info"
    by (simp_all add: new_chunk_object_def)
  obtain r1 where op0: "os_OpenFile_create_excl (disk w) (Path ?ch) = Inr r1"
    using nc by (cases "os_OpenFile_create_excl (disk w) (Path ?ch)") (simp_all add: newChunk_def Let_def)
  obtain fh d1 where r1: "r1 = (fh, d1)" by (cases r1)
  from op0 r1 have op: "os_OpenFile_create_excl (disk w) (Path ?ch) = Inr (fh, d1)" by simp
  then have d1: "names (disk w) ?np = None" "names d1 = (names (disk w))(?np \<mapsto> ninode (disk w))"
    by (auto simp: os_OpenFile_create_excl_def pch split: option.splits)
  let ?cl = "case writer (journal w) of None \<Rightarrow> Inr d1 | Some wr \<Rightarrow> file_Close d1 wr"
  obtain d2 where cl: "?cl = Inr d2"
    using nc op by (cases ?cl) (simp_all add: newChunk_def Let_def)
  then have d2: "names d2 = names d1"
    by (auto simp: file_Close_def split: option.splits)
  let ?wL = "link_new_chunk (w\<lparr>disk := d2\<rparr>) ?ch"
  from nc op cl have si: "seal_and_install cd ?wL (first_chunk w) fh (length (store w)) = Inr (Inr c, w1)"
    by (simp add: newChunk_def Let_def)
  from ptr have ptr': "\<forall>old. first_chunk (w\<lparr>disk := d2\<rparr>) = Some old \<longrightarrow> old < length (store (w\<lparr>disk := d2\<rparr>))"
    by simp
  note L = link_new_chunk_facts [OF ptr', where ch = ?ch]
  have ol: "\<forall>old. first_chunk w = Some old \<longrightarrow>
         old \<noteq> length (store w) \<and> length (store w) < length (store ?wL) \<and>
         head_prev (store ?wL ! old) = Some (length (store w))"
    using ptr L(1) L(12) by auto
  have rc: "refcount (store ?wL ! length (store w)) = 2"
    using L(11) by (simp add: new_chunk_object_def)
  note S = seal_and_install_sealed [OF si ol rc]
  have dL: "names (disk ?wL) = (names (disk w))(?np \<mapsto> ninode (disk w))"
    using L(3) d1 d2 by simp
  from S(1) L(13) show "Path (store w1 ! length (store w)) = ?np"
    by (simp add: pch)
  from S(2) L(14) show "Type (store w1 ! length (store w)) = info_Type ?info"
    by (simp add: tch)
  show "names (disk w) ?np = None" by (rule d1)
  show "names (disk w1) = (names (disk w))(?np \<mapsto> ninode (disk w))" if "first_chunk w = None"
    using S(3) [OF that] dL by simp
  show "Type (store w1 ! old) = Rest \<and>
           Path (store w1 ! old) = pathPrefix w @
             BuildJournalPathWithTSuffix cd (key (journal w)) Rest (TSuffix (store w ! old)) @
             pathSuffix w \<and>
           (\<exists>i. ((names (disk w))(?np \<mapsto> ninode (disk w))) (Path (store w ! old)) = Some i \<and>
              (names (disk w1) =
                 (((names (disk w))(?np \<mapsto> ninode (disk w)))(Path (store w ! old) := None))
                 (pathPrefix w @
                  BuildJournalPathWithTSuffix cd (key (journal w)) Rest (TSuffix (store w ! old)) @
                  pathSuffix w \<mapsto> i) \<or>
               names (disk w1) =
                 (((names (disk w))(?np \<mapsto> ninode (disk w)))(Path (store w ! old) := None))
                 (pathPrefix w @
                  BuildJournalPathWithTSuffix cd (key (journal w)) Rest (TSuffix (store w ! old)) @
                  pathSuffix w := None)))"
    if f: "first_chunk w = Some old"
  proof -
    from ptr f have o: "old < length (store w)" by simp
    then have o': "old < length (store (w\<lparr>disk := d2\<rparr>))" by simp
    note K = link_new_chunk_old [OF o', where ch = ?ch]
    from o L(1) have oL: "old < length (store ?wL)" by simp
    from S(4) [OF f oL] show ?thesis
      by (simp only: K L(5) L(8) L(9) dL) simp
  qed
qed

lemma write_to_writer_names:
  assumes "write_to_writer data w = Inr (None, w')"
  shows "names (disk w') = names (disk w)"
  using assms
  by (auto simp: write_to_writer_def file_Write_def split: option.splits if_splits)


section \<open>Handles after \<open>Dispose\<close>\<close>

text \<open>
  Claim C9.  Once \<open>Dispose\<close> has returned without error on a handle, the handle is dead
  whatever was done with it before and whatever the journal has become since (the state
  \<open>u\<close> is arbitrary): \<open>GetReader\<close> returns the error "already disposed", \<open>TakeOwnership\<close>
  returns false and a second \<open>Dispose\<close> returns the error "already disposed"; none of them
  touches the state. \<open>GetNextChunk\<close> creates no handle either, but what it returns is not the
  nil interface: it is an interface value that holds a nil pointer, and a caller who
  compares it with nil finds it different.
\<close>

theorem disposed_handle_is_dead:
  assumes "Dispose wrapper w = Inr (None, wrapper', w')"
  shows "GetReader wrapper' u = Inl AlreadyDisposed \<and>
         GetNextChunk wrapper' u = (WrapperPointer None, u) \<and>
         fst (GetNextChunk wrapper' u) \<noteq> NilJournalChunk \<and>
         TakeOwnership wrapper' u = Inr (False, wrapper', u) \<and>
         Dispose wrapper' u = Inr (Some AlreadyDisposed, wrapper', u)"
proof -
  from assms have "chunk wrapper' = None"
    by (auto simp: Dispose_def split: option.splits sum.splits prod.splits if_splits)
  then show ?thesis
    by (simp add: GetReader_def GetNextChunk_def TakeOwnership_def Dispose_def)
qed

theorem disposed_handle_is_dead_witness:
  "Dispose \<lparr>chunk = Some 0, ownershipTaken = 0\<rparr> demo_one
     = Inr (None, \<lparr>chunk = None, ownershipTaken = 0\<rparr>, add_refcount demo_one 0 (- 1)) \<and>
   GetReader \<lparr>chunk = None, ownershipTaken = 0\<rparr> demo_three = Inl AlreadyDisposed \<and>
   GetNextChunk \<lparr>chunk = None, ownershipTaken = 0\<rparr> demo_three
     = (WrapperPointer None, demo_three) \<and>
   fst (GetNextChunk \<lparr>chunk = None, ownershipTaken = 0\<rparr> demo_three) \<noteq> NilJournalChunk \<and>
   TakeOwnership \<lparr>chunk = None, ownershipTaken = 0\<rparr> demo_three
     = Inr (False, \<lparr>chunk = None, ownershipTaken = 0\<rparr>, demo_three) \<and>
   Dispose \<lparr>chunk = None, ownershipTaken = 0\<rparr> demo_three
     = Inr (Some AlreadyDisposed, \<lparr>chunk = None, ownershipTaken = 0\<rparr>, demo_three)"
proof -
  have d: "Dispose \<lparr>chunk = Some 0, ownershipTaken = 0\<rparr> demo_one
     = Inr (None, \<lparr>chunk = None, ownershipTaken = 0\<rparr>, add_refcount demo_one 0 (- 1))"
    by (simp add: Dispose_def deleteRef.simps demo_one_def add_refcount_def)
  from disposed_handle_is_dead [OF d, of demo_three] d show ?thesis
    by simp
qed

section \<open>Writing after the journal's \<open>Dispose\<close>\<close>

text \<open>
  Claim C10.  When the writer is nil and the chunk list is not empty (the state
  \<open>Journal.Dispose\<close> leaves behind), \<open>Write\<close> takes neither branch that calls \<open>newChunk\<close>
  and then calls \<open>journal.writer.Write\<close> on the nil writer: it creates no chunk and
  returns no error, it panics with a nil dereference.
\<close>

theorem write_after_dispose_panics:
  assumes "writer (journal w) = None" and "first_chunk w \<noteq> None"
  shows "\<not> needs_new_chunk data w \<and> Write cd now rnd data w = Inl NilDereference"
  using assms by (auto simp: Write_def needs_new_chunk_def write_to_writer_def)

theorem write_after_dispose_panics_witness:
  "Journal_Dispose demo_one = (None, demo_disposed) \<and>
   writer (journal demo_disposed) = None \<and> first_chunk demo_disposed \<noteq> None \<and>
   \<not> needs_new_chunk ''BBB'' demo_disposed \<and>
   Write demo_codec 2 6 ''BBB'' demo_disposed = Inl NilDereference"
proof -
  have a: "writer (journal demo_disposed) = None"
    by (simp add: demo_disposed_def)
  have b: "first_chunk demo_disposed \<noteq> None"
    by (simp add: demo_disposed_def demo_one_def)
  from write_after_dispose_panics [OF a b, of "''BBB''" demo_codec 2 6] a b
    demo_disposed_reachable
  show ?thesis by simp
qed

section \<open>The cascade of \<open>deleteRef\<close>\<close>

text \<open>
  Claim C3, as the code has it.  When \<open>deleteRef\<close> brings the count of a chunk to zero
  (it was one) and the chunk has a neighbour in the direction of \<open>head.prev\<close>, the newer
  one, \<open>deleteRef\<close> is first applied to that neighbour.  A panic of that call is the
  panic of the whole.  If it returns an error, the error is returned with
  \<open>destroyed = false\<close> and the count of the chunk is back at its old value.  If it
  returns without error, the file of the chunk is removed: when there is no such file,
  the error of the removal is returned with \<open>destroyed = false\<close> and the count of the
  chunk is back at its old value; otherwise the call returns \<open>destroyed = true\<close>, the
  path of the chunk is no longer on disk while every other name is as the call on the
  neighbour left it, no count has changed since, the list has one chunk less and, when it
  was well linked with the chunk in it, is well linked without it.
\<close>

theorem deleteRef_cascades_to_newer:
  assumes c: "c < length (store w)"
    and one: "refcount (store w ! c) = 1"
    and p: "head_prev (store w ! c) = Some p"
  shows "(\<forall>pn. deleteRef (add_refcount w c (- 1)) p = Inl pn \<longrightarrow> deleteRef w c = Inl pn) \<and>
         (\<forall>err d w'. deleteRef (add_refcount w c (- 1)) p = Inr (Some err, d, w') \<longrightarrow>
            deleteRef w c = Inr (Some err, False, add_refcount w' c 1) \<and>
            refcount (store (add_refcount w' c 1) ! c) = refcount (store w ! c)) \<and>
         (\<forall>d w'. deleteRef (add_refcount w c (- 1)) p = Inr (None, d, w') \<longrightarrow>
            (names (disk w') (Path (store w ! c)) = None \<longrightarrow>
               deleteRef w c = Inr (Some ENOENT, False, add_refcount w' c 1) \<and>
               refcount (store (add_refcount w' c 1) ! c) = refcount (store w ! c)) \<and>
            (names (disk w') (Path (store w ! c)) \<noteq> None \<longrightarrow>
               (\<exists>w''. deleteRef w c = Inr (None, True, w'') \<and>
                  names (disk w'') = (names (disk w'))(Path (store w ! c) := None) \<and>
                  dq_count (chunks (journal w'')) = dq_count (chunks (journal w')) - 1 \<and>
                  (\<forall>x. refcount (store w'' ! x) = refcount (store w' ! x)) \<and>
                  (\<forall>as bs. well_linked w' (as @ c # bs) \<longrightarrow> well_linked w'' (as @ bs)))))"
proof -
  let ?w1 = "add_refcount w c (- 1)"
  have z: "refcount (store ?w1 ! c) = 0" and hp: "head_prev (store ?w1 ! c) = Some p"
    using c one p by (simp_all add: add_refcount_def)
  have eq: "deleteRef w c =
      (case deleteRef ?w1 p of
         Inl pn \<Rightarrow> Inl pn
       | Inr (Some err, destroyed, w') \<Rightarrow> Inr (Some err, False, add_refcount w' c 1)
       | Inr (None, destroyed, w') \<Rightarrow> remove_and_unlink w' c)"
    using c z hp by (subst deleteRef.simps) simp
  have undo: "refcount (store (add_refcount w' c 1) ! c) = refcount (store w ! c)"
    if "deleteRef ?w1 p = Inr (e, d, w')" for e d w'
  proof -
    from deleteRef_keeps_zero [OF that _ z] c
    have "length (store w') = length (store w)" "refcount (store w' ! c) = 0"
      by simp_all
    with c one show ?thesis by (simp add: refcount_add_refcount)
  qed
  have third:
    "(names (disk w') (Path (store w ! c)) = None \<longrightarrow>
        deleteRef w c = Inr (Some ENOENT, False, add_refcount w' c 1) \<and>
        refcount (store (add_refcount w' c 1) ! c) = refcount (store w ! c)) \<and>
     (names (disk w') (Path (store w ! c)) \<noteq> None \<longrightarrow>
        (\<exists>w''. deleteRef w c = Inr (None, True, w'') \<and>
           names (disk w'') = (names (disk w'))(Path (store w ! c) := None) \<and>
           dq_count (chunks (journal w'')) = dq_count (chunks (journal w')) - 1 \<and>
           (\<forall>x. refcount (store w'' ! x) = refcount (store w' ! x)) \<and>
           (\<forall>as bs. well_linked w' (as @ c # bs) \<longrightarrow> well_linked w'' (as @ bs))))"
    if r: "deleteRef ?w1 p = Inr (None, d, w')" for d w'
  proof -
    from deleteRef_Path [OF r, of c] have pth: "Path (store w' ! c) = Path (store w ! c)"
      by simp
    from r have e: "deleteRef w c = remove_and_unlink w' c"
      by (simp add: eq)
    show ?thesis
    proof (cases "names (disk w') (Path (store w ! c))")
      case None
      with e pth undo [OF r] show ?thesis
        by (simp add: remove_and_unlink_def os_Remove_def)
    next
      case (Some i)
      let ?d = "(disk w')\<lparr>names := (names (disk w'))(Path (store w ! c) := None)\<rparr>"
      let ?w2 = "unlink_chunk (w'\<lparr>disk := ?d\<rparr>) c"
      from Some e pth have 1: "deleteRef w c = Inr (None, True, ?w2)"
        by (simp add: remove_and_unlink_def os_Remove_def)
      have 2: "names (disk ?w2) = (names (disk w'))(Path (store w ! c) := None)"
        by simp
      have 3: "dq_count (chunks (journal ?w2)) = dq_count (chunks (journal w')) - 1"
        by simp
      have 4: "\<forall>x. refcount (store ?w2 ! x) = refcount (store w' ! x)"
        by simp
      have 5: "\<forall>as bs. well_linked w' (as @ c # bs) \<longrightarrow> well_linked ?w2 (as @ bs)"
      proof (intro allI impI)
        fix as bs
        assume "well_linked w' (as @ c # bs)"
        then have "well_linked (w'\<lparr>disk := ?d\<rparr>) (as @ c # bs)" by simp
        then show "well_linked ?w2 (as @ bs)" by (rule unlink_well_linked)
      qed
      have "deleteRef w c = Inr (None, True, ?w2) \<and>
           names (disk ?w2) = (names (disk w'))(Path (store w ! c) := None) \<and>
           dq_count (chunks (journal ?w2)) = dq_count (chunks (journal w')) - 1 \<and>
           (\<forall>x. refcount (store ?w2 ! x) = refcount (store w' ! x)) \<and>
           (\<forall>as bs. well_linked w' (as @ c # bs) \<longrightarrow> well_linked ?w2 (as @ bs))"
        using 1 2 3 4 5 by (intro conjI)
      then have "\<exists>w''. deleteRef w c = Inr (None, True, w'') \<and>
           names (disk w'') = (names (disk w'))(Path (store w ! c) := None) \<and>
           dq_count (chunks (journal w'')) = dq_count (chunks (journal w')) - 1 \<and>
           (\<forall>x. refcount (store w'' ! x) = refcount (store w' ! x)) \<and>
           (\<forall>as bs. well_linked w' (as @ c # bs) \<longrightarrow> well_linked w'' (as @ bs))"
        by (rule exI)
      with Some show ?thesis by simp
    qed
  qed
  show ?thesis
  proof (intro conjI allI impI)
    fix pn assume "deleteRef ?w1 p = Inl pn"
    then show "deleteRef w c = Inl pn" by (simp add: eq)
  next
    fix err d w' assume r: "deleteRef ?w1 p = Inr (Some err, d, w')"
    then show "deleteRef w c = Inr (Some err, False, add_refcount w' c 1)" by (simp add: eq)
    from undo [OF r] show "refcount (store (add_refcount w' c 1) ! c) = refcount (store w ! c)" .
  next
    fix d w' assume r: "deleteRef ?w1 p = Inr (None, d, w')"
      and n: "names (disk w') (Path (store w ! c)) = None"
    from third [OF r] n
    show "deleteRef w c = Inr (Some ENOENT, False, add_refcount w' c 1)" by simp
    from undo [OF r] show "refcount (store (add_refcount w' c 1) ! c) = refcount (store w ! c)" .
  next
    fix d w' assume r: "deleteRef ?w1 p = Inr (None, d, w')"
      and n: "names (disk w') (Path (store w ! c)) \<noteq> None"
    from third [OF r] n
    show "\<exists>w''. deleteRef w c = Inr (None, True, w'') \<and>
           names (disk w'') = (names (disk w'))(Path (store w ! c) := None) \<and>
           dq_count (chunks (journal w'')) = dq_count (chunks (journal w')) - 1 \<and>
           (\<forall>x. refcount (store w'' ! x) = refcount (store w' ! x)) \<and>
           (\<forall>as bs. well_linked w' (as @ c # bs) \<longrightarrow> well_linked w'' (as @ bs))"
      by simp
  qed
qed

theorem deleteRef_cascades_to_newer_witness:
  "(case deleteRef (add_refcount demo_three_lost 0 (- 1)) 1 of
      Inr (Some err, d, w') \<Rightarrow>
        err = ENOENT \<and>
        deleteRef demo_three_lost 0 = Inr (Some ENOENT, False, add_refcount w' 0 1) \<and>
        refcount (store (add_refcount w' 0 1) ! 0) = 1
    | _ \<Rightarrow> False) \<and>
   (case deleteRef (add_refcount demo_three 0 (- 1)) 1 of
      Inr (None, d, w') \<Rightarrow>
        names (disk w') (Path (store demo_three ! 0)) \<noteq> None \<and>
        well_linked w' ([2] @ 0 # []) \<and>
        (case deleteRef demo_three 0 of
           Inr (None, True, w'') \<Rightarrow>
             names (disk w'') (Path (store demo_three ! 0)) = None \<and>
             well_linked w'' ([2] @ []) \<and>
             dq_count (chunks (journal w'')) = dq_count (chunks (journal w')) - 1
         | _ \<Rightarrow> False)
    | _ \<Rightarrow> False)"
proof -
  have a: "0 < length (store demo_three_lost)" "refcount (store demo_three_lost ! 0) = 1"
    "head_prev (store demo_three_lost ! 0) = Some 1"
    by (simp_all add: demo_three_lost_def demo_three_def)
  have b: "0 < length (store demo_three)" "refcount (store demo_three ! 0) = 1"
    "head_prev (store demo_three ! 0) = Some 1"
    by (simp_all add: demo_three_def)
  obtain w1 where r1: "deleteRef (add_refcount demo_three_lost 0 (- 1)) 1 = Inr (Some ENOENT, False, w1)"
    by (simp add: demo_three_lost_def demo_three_def deleteRef.simps add_refcount_def
        remove_and_unlink_def os_Remove_def)
  obtain w2 where r2: "deleteRef (add_refcount demo_three 0 (- 1)) 1 = Inr (None, True, w2)"
    and n2: "names (disk w2) (Path (store demo_three ! 0)) \<noteq> None"
    and l2: "well_linked w2 ([2] @ 0 # [])"
    by (simp add: demo_three_def deleteRef.simps add_refcount_def well_linked_def
        remove_and_unlink_def os_Remove_def unlink_chunk_def st_defs Let_def)
  from deleteRef_cascades_to_newer [OF a, THEN conjunct2, THEN conjunct1, rule_format, OF r1]
  have A: "deleteRef demo_three_lost 0 = Inr (Some ENOENT, False, add_refcount w1 0 1) \<and>
      refcount (store (add_refcount w1 0 1) ! 0) = 1"
    using a(2) by simp
  from deleteRef_cascades_to_newer [OF b, THEN conjunct2, THEN conjunct2, rule_format, OF r2, THEN conjunct2,
      rule_format, OF n2] l2
  obtain w3 where B: "deleteRef demo_three 0 = Inr (None, True, w3)"
    "names (disk w3) = (names (disk w2))(Path (store demo_three ! 0) := None)"
    "dq_count (chunks (journal w3)) = dq_count (chunks (journal w2)) - 1"
    "well_linked w3 ([2] @ [])"
    by blast
  from A r1 r2 n2 l2 B show ?thesis by simp
qed


text \<open>
  The claim as stated fails: in the journal with three chunks the middle chunk, sealed and
  with an older neighbour, is destroyed by \<open>deleteRef\<close>; the count of the newer
  neighbour went down and the older neighbour is still the tail of the list, untouched.
\<close>

theorem cascade_counterexample:
  "(case deleteRef demo_three 1 of
      Inr (None, True, w') \<Rightarrow>
        head_next (store demo_three ! 1) = Some 0 \<and>
        Type (store demo_three ! 1) = Rest \<and>
        names (disk w') (Path (store demo_three ! 1)) = None \<and>
        last_chunk w' = Some 0 \<and>
        refcount (store w' ! 0) = refcount (store demo_three ! 0) \<and>
        refcount (store w' ! 2) = refcount (store demo_three ! 2) - 1
    | _ \<Rightarrow> False)"
  by (simp add: demo_three_def deleteRef.simps add_refcount_def
      remove_and_unlink_def os_Remove_def unlink_chunk_def st_defs Let_def)

section \<open>Taking ownership of the oldest chunk\<close>

text \<open>
  Claim C2, as the code has it.  Let the journal be well linked, \<open>c1\<close> its oldest chunk
  and \<open>c2\<close> the second-oldest (\<open>cs\<close> are the newer ones; any number of them), and let
  both have their files on disk, under different paths.  If nothing but the list holds
  \<open>c1\<close> (its count is one before the handle is made) and \<open>c2\<close> is held by something
  besides (its count is above one), then \<open>GetTailChunk\<close> gives a handle on \<open>c1\<close>,
  \<open>TakeOwnership\<close> returns true, \<open>Dispose\<close> returns without error, and afterwards the
  file of \<open>c1\<close> is gone, the list is \<open>cs\<close> followed by \<open>c2\<close>, which is now the tail, the
  file of \<open>c2\<close> is on disk and the count of \<open>c2\<close> is what it was, at least one.
\<close>

theorem take_ownership_of_tail:
  assumes wl: "well_linked w (cs @ [c2, c1])"
    and rc1: "refcount (store w ! c1) = 1"
    and rc2: "1 < sint (refcount (store w ! c2))"
    and f1: "names (disk w) (Path (store w ! c1)) \<noteq> None"
    and f2: "names (disk w) (Path (store w ! c2)) \<noteq> None"
    and dp: "Path (store w ! c2) \<noteq> Path (store w ! c1)"
  shows "\<exists>h w1 h' w2 h'' w3.
           GetTailChunk w = (WrapperPointer (Some h), w1) \<and> chunk h = Some c1 \<and>
           TakeOwnership h w1 = Inr (True, h', w2) \<and>
           Dispose h' w2 = Inr (None, h'', w3) \<and>
           names (disk w3) (Path (store w ! c1)) = None \<and>
           well_linked w3 (cs @ [c2]) \<and> last_chunk w3 = Some c2 \<and>
           names (disk w3) (Path (store w3 ! c2)) \<noteq> None \<and>
           refcount (store w3 ! c2) = refcount (store w ! c2) \<and>
           1 \<le> sint (refcount (store w3 ! c2))"
proof -
  from wl have wl1: "well_linked w ((cs @ [c2]) @ c1 # [])" by simp
  note n1 = well_linked_neighbours [OF wl1]
  from wl have wl2: "well_linked w (cs @ c2 # [c1])" by simp
  note n2 = well_linked_neighbours [OF wl2]
  from wl have ne: "c1 \<noteq> c2" by (auto simp: well_linked_def)
  from well_linked_ends(2) [OF wl] have last: "last_chunk w = Some c1" by simp
  let ?h = "\<lparr>chunk = Some c1, ownershipTaken = 0\<rparr>"
  let ?w1 = "add_refcount w c1 1"
  have g: "GetTailChunk w = (WrapperPointer (Some ?h), ?w1)"
    using last by (simp add: GetTailChunk_def newChunkWrapper_def)
  have "1 < sint (refcount (store ?w1 ! c1))"
    using n1(1) rc1 by (simp add: refcount_add_refcount)
  from deleteRef_held [OF _ this] n1(1)
  have d1: "deleteRef ?w1 c1 = Inr (None, False, w)" by simp
  let ?h' = "?h\<lparr>ownershipTaken := 1\<rparr>"
  have t: "TakeOwnership ?h ?w1 = Inr (True, ?h', w)"
    by (simp add: TakeOwnership_def d1)
  let ?wa = "add_refcount w c1 (- 1)"
  let ?wb = "add_refcount ?wa c2 (- 1)"
  have "1 < sint (refcount (store ?wa ! c2))"
    using rc2 ne by (simp add: refcount_add_refcount)
  from deleteRef_held [OF _ this] n2(1)
  have d2: "deleteRef ?wa c2 = Inr (None, False, ?wb)" by simp
  from f1 obtain i where i: "names (disk w) (Path (store w ! c1)) = Some i" by auto
  let ?d = "(disk w)\<lparr>names := (names (disk w))(Path (store w ! c1) := None)\<rparr>"
  let ?wc = "unlink_chunk (?wb\<lparr>disk := ?d\<rparr>) c1"
  have r: "remove_and_unlink ?wb c1 = Inr (None, True, ?wc)"
    using i by (simp add: remove_and_unlink_def os_Remove_def)
  have d3: "deleteRef w c1 = Inr (None, True, ?wc)"
    using deleteRef_last_reference [of c1 w c2] n1 rc1 d2 r by simp
  have wlb: "well_linked (?wb\<lparr>disk := ?d\<rparr>) ((cs @ [c2]) @ c1 # [])"
    using wl1 by simp
  have self: "store ?wc ! c1 = store (?wb\<lparr>disk := ?d\<rparr>) ! c1"
    by (rule unlink_self [OF wlb])
  have hn: "head_next (store ?wc ! c1) = None" and hp: "head_prev (store ?wc ! c1) = Some c2"
    using n1 by (simp_all add: self)
  let ?w3 = "add_refcount ?wc c2 1"
  have ds: "Dispose ?h' w = Inr (None, ?h'\<lparr>chunk := None\<rparr>, ?w3)"
    using hn hp by (simp add: Dispose_def d3)
  have l3: "well_linked ?w3 (cs @ [c2])"
    using unlink_well_linked [OF wlb] by simp
  have c2l: "c2 < length (store ?wc)"
    using n2(1) by simp
  have rc3: "refcount (store ?w3 ! c2) = refcount (store w ! c2)"
    using c2l n2(1) ne by (simp add: refcount_add_refcount)
  have k1: "names (disk ?w3) (Path (store w ! c1)) = None" by simp
  have k2: "names (disk ?w3) (Path (store ?w3 ! c2)) \<noteq> None"
    using f2 dp by simp
  have k3: "last_chunk ?w3 = Some c2"
    using well_linked_ends(2) [OF l3] by simp
  have k4: "1 \<le> sint (refcount (store ?w3 ! c2))"
    using rc2 by (simp add: rc3)
  have "GetTailChunk w = (WrapperPointer (Some ?h), ?w1) \<and> chunk ?h = Some c1 \<and>
        TakeOwnership ?h ?w1 = Inr (True, ?h', w) \<and>
        Dispose ?h' w = Inr (None, ?h'\<lparr>chunk := None\<rparr>, ?w3) \<and>
        names (disk ?w3) (Path (store w ! c1)) = None \<and>
        well_linked ?w3 (cs @ [c2]) \<and> last_chunk ?w3 = Some c2 \<and>
        names (disk ?w3) (Path (store ?w3 ! c2)) \<noteq> None \<and>
        refcount (store ?w3 ! c2) = refcount (store w ! c2) \<and>
        1 \<le> sint (refcount (store ?w3 ! c2))"
    by (intro conjI g t ds k1 l3 k3 k2 rc3 k4) simp
  then show ?thesis by blast
qed

theorem take_ownership_of_tail_witness:
  "well_linked demo_three_held ([2] @ [1, 0]) \<and>
   refcount (store demo_three_held ! 0) = 1 \<and>
   1 < sint (refcount (store demo_three_held ! 1)) \<and>
   names (disk demo_three_held) (Path (store demo_three_held ! 0)) \<noteq> None \<and>
   names (disk demo_three_held) (Path (store demo_three_held ! 1)) \<noteq> None \<and>
   Path (store demo_three_held ! 1) \<noteq> Path (store demo_three_held ! 0) \<and>
   (\<exists>h w1 h' w2 h'' w3.
      GetTailChunk demo_three_held = (WrapperPointer (Some h), w1) \<and> chunk h = Some 0 \<and>
      TakeOwnership h w1 = Inr (True, h', w2) \<and>
      Dispose h' w2 = Inr (None, h'', w3) \<and>
      names (disk w3) (Path (store demo_three_held ! 0)) = None \<and>
      well_linked w3 ([2] @ [1]) \<and> last_chunk w3 = Some 1 \<and>
      names (disk w3) (Path (store w3 ! 1)) \<noteq> None \<and>
      refcount (store w3 ! 1) = refcount (store demo_three_held ! 1) \<and>
      1 \<le> sint (refcount (store w3 ! 1)))"
proof -
  have a: "well_linked demo_three_held ([2] @ [1, 0])"
    by (simp add: well_linked_def demo_three_held_def demo_three_def add_refcount_def)
  have b: "refcount (store demo_three_held ! 0) = 1"
    by (simp add: demo_three_held_def demo_three_def add_refcount_def)
  have c: "1 < sint (refcount (store demo_three_held ! 1))"
    by (simp add: demo_three_held_def demo_three_def add_refcount_def)
  have d: "names (disk demo_three_held) (Path (store demo_three_held ! 0)) \<noteq> None"
    by (simp add: demo_three_held_def demo_three_def add_refcount_def)
  have e: "names (disk demo_three_held) (Path (store demo_three_held ! 1)) \<noteq> None"
    by (simp add: demo_three_held_def demo_three_def add_refcount_def)
  have f: "Path (store demo_three_held ! 1) \<noteq> Path (store demo_three_held ! 0)"
    by (simp add: demo_three_held_def demo_three_def add_refcount_def)
  from take_ownership_of_tail [OF a b c d e f] a b c d e f show ?thesis
    by (intro conjI)
qed

text \<open>
  The claim as stated fails on the journal that three writes with two roll-overs leave
  behind (counts 1, 1 and 2 from the oldest).  After \<open>TakeOwnership\<close> and \<open>Dispose\<close> on the
  handle of the oldest chunk the second-oldest chunk is destroyed as well: its file is
  removed and the head, the only chunk left, is the tail.
\<close>

theorem take_ownership_counterexample:
  "(case GetTailChunk demo_three of
      (WrapperPointer (Some h), w1) \<Rightarrow>
        (case TakeOwnership h w1 of
           Inr (True, h', w2) \<Rightarrow>
             (case Dispose h' w2 of
                Inr (None, h'', w3) \<Rightarrow>
                  last_chunk demo_three = Some 0 \<and>
                  head_prev (store demo_three ! 0) = Some 1 \<and>
                  names (disk demo_three) (Path (store demo_three ! 1)) \<noteq> None \<and>
                  names (disk w3) (Path (store demo_three ! 0)) = None \<and>
                  names (disk w3) (Path (store w3 ! 1)) = None \<and>
                  first_chunk w3 = Some 2 \<and> last_chunk w3 = Some 2 \<and>
                  head_next (store w3 ! 2) = None \<and>
                  dq_count (chunks (journal w3)) = 1
              | _ \<Rightarrow> False)
         | _ \<Rightarrow> False)
    | _ \<Rightarrow> False)"
  by (simp add: GetTailChunk_def TakeOwnership_def Dispose_def newChunkWrapper_def
      demo_three_def deleteRef.simps add_refcount_def remove_and_unlink_def os_Remove_def
      unlink_chunk_def st_defs Let_def)

lemma demo_three_reachable:
  "(case Write demo_codec 1 5 ''AAA'' demo_empty of
      Inr (None, w1) \<Rightarrow>
        (case Write demo_codec 2 6 ''BBB'' w1 of
           Inr (None, w2) \<Rightarrow>
             (case Write demo_codec 3 7 ''CCC'' w2 of
                Inr (None, w3) \<Rightarrow> same_world w3 demo_three
              | _ \<Rightarrow> False)
         | _ \<Rightarrow> False)
    | _ \<Rightarrow> False)"
  by (simp add: journal_defs demo_empty_def demo_three_def same_world_def
      fs_defs st_defs demo_defs Let_def hex_4101 hex_8198 hex_12295 deleteRef.simps)

section \<open>Validation of a recovered list\<close>

lemma heads_simps [simp]:
  "heads st [] = []"
  "heads st (c # cs) = (if Type (st ! c) = Head then c # heads st cs else heads st cs)"
  by (simp_all add: heads_def)

lemma validate_loop_list:
  assumes "chunk_path head_next st p cs None"
  shows "validate_loop st p h =
     Some (case h of
             None \<Rightarrow>
               (case heads st cs of [] \<Rightarrow> Inr None | [x] \<Rightarrow> Inr (Some x) | _ \<Rightarrow> Inl MultipleHeads)
           | Some y \<Rightarrow> (if heads st cs = [] then Inr (Some y) else Inl MultipleHeads))"
  using assms
proof (induction cs arbitrary: p h)
  case Nil
  then show ?case
    by (subst validate_loop.simps) (simp split: option.splits)
next
  case (Cons c cs)
  from Cons.prems have p: "p = Some c"
    and rest: "chunk_path head_next st (head_next (st ! c)) cs None"
    by simp_all
  show ?case
  proof (cases "Type (st ! c) = Head")
    case True
    show ?thesis
    proof (cases h)
      case None
      with True p Cons.IH [OF rest, of "Some c"] show ?thesis
        by (subst validate_loop.simps) (simp split: list.splits)
    next
      case (Some y)
      with True p show ?thesis
        by (subst validate_loop.simps) simp
    qed
  next
    case False
    with p Cons.IH [OF rest, of h] show ?thesis
      by (subst validate_loop.simps) (simp split: option.splits)
  qed
qed

text \<open>
  Claim C6, as the code has it.  On a list that \<open>head.next\<close> leads through from
  \<open>chunks.first\<close> to nil, \<open>validateChunks\<close> returns, and it returns nil exactly when the
  list is empty or its only head is its first chunk.  Two heads or more give "multiple
  chunk heads found"; one head elsewhere, or no head in a list that is not empty, gives
  "chunk head does not have the newest timestamp".
\<close>

theorem validateChunks_verdict:
  assumes "chunk_path head_next st (dq_first dq) cs None"
  shows "validateChunks st dq =
     Some (if cs = [] then None
           else if 2 \<le> length (heads st cs) then Some MultipleHeads
           else if heads st cs = [hd cs] then None
           else Some HeadNotNewest)"
proof (cases cs)
  case Nil
  with assms validate_loop_list [OF assms, of None] show ?thesis
    by (simp add: validateChunks_def)
next
  case (Cons c cs')
  with assms have f: "dq_first dq = Some c" by simp
  show ?thesis
  proof (cases "heads st cs")
    case Nil
    with Cons f validate_loop_list [OF assms, of None] show ?thesis
      by (simp add: validateChunks_def)
  next
    case hc: (Cons x xs)
    show ?thesis
    proof (cases xs)
      case Nil
      with hc Cons f validate_loop_list [OF assms, of None] show ?thesis
        by (auto simp: validateChunks_def)
    next
      case (Cons y ys)
      with hc \<open>cs = c # cs'\<close> f validate_loop_list [OF assms, of None] show ?thesis
        by (simp add: validateChunks_def)
    qed
  qed
qed


theorem validateChunks_verdict_witness:
  "chunk_path head_next (store demo_three) (first_chunk demo_three) [2, 1, 0] None \<and>
   validateChunks (store demo_three) (chunks (journal demo_three)) = Some None"
proof -
  have a: "chunk_path head_next (store demo_three) (first_chunk demo_three) [2, 1, 0] None"
    by (simp add: demo_three_def)
  from validateChunks_verdict [OF a] a show ?thesis
    by (simp add: demo_three_def)
qed

text \<open>
  The claim as stated fails: a list of one sealed chunk has no head at all, and
  \<open>validateChunks\<close> rejects it.
\<close>

theorem validateChunks_counterexample:
  "chunk_path head_next rest_only (Some 0) [0] None \<and>
   heads rest_only [0] = [] \<and>
   validateChunks rest_only \<lparr>dq_first = Some 0, dq_last = Some 0, dq_count = 1\<rparr>
     = Some (Some HeadNotNewest)"
  by (simp add: rest_only_def validateChunks_def validate_loop.simps)


section \<open>Foreign files in the directory\<close>

lemma scan_entries_append:
  "scan_entries cd pfx sfx bn s (fs1 @ fs2) =
     (case scan_entries cd pfx sfx bn s fs1 of
        Inl pn \<Rightarrow> Inl pn
      | Inr s' \<Rightarrow> scan_entries cd pfx sfx bn s' fs2)"
  by (induction fs1 arbitrary: s) (auto split: sum.splits)

lemma append_scanned_chunk_found:
  assumes "sc_store s1 = sc_store s2" and "sc_journals s1 = sc_journals s2"
  shows "sc_store (append_scanned_chunk pfx sfx info s1) = sc_store (append_scanned_chunk pfx sfx info s2)"
    and "sc_journals (append_scanned_chunk pfx sfx info s1) = sc_journals (append_scanned_chunk pfx sfx info s2)"
  by (simp_all add: append_scanned_chunk_def Let_def assms cong: option.case_cong)

lemma scan_entry_found:
  assumes "sc_store s1 = sc_store s2" and "sc_journals s1 = sc_journals s2"
  shows "found (scan_entry cd pfx sfx bn s1 f) = found (scan_entry cd pfx sfx bn s2 f)"
proof (cases "DecodeJournalPath cd (drop (length bn) (take (length f - length sfx) f))")
  case (Inl err)
  with assms show ?thesis by (simp add: scan_entry_def found_def)
next
  case (Inr info)
  with append_scanned_chunk_found [OF assms, of pfx sfx info] assms show ?thesis
    by (simp add: scan_entry_def found_def)
qed

lemma scan_entries_found:
  assumes "sc_store s1 = sc_store s2" and "sc_journals s1 = sc_journals s2"
  shows "found (scan_entries cd pfx sfx bn s1 files) = found (scan_entries cd pfx sfx bn s2 files)"
  using assms
proof (induction files arbitrary: s1 s2)
  case Nil
  then show ?case by (simp add: found_def)
next
  case (Cons f files)
  from scan_entry_found [OF Cons.prems, of cd pfx sfx bn f]
  consider pn where "scan_entry cd pfx sfx bn s1 f = Inl pn" "scan_entry cd pfx sfx bn s2 f = Inl pn"
    | t1 t2 where "scan_entry cd pfx sfx bn s1 f = Inr t1" "scan_entry cd pfx sfx bn s2 f = Inr t2"
        "sc_store t1 = sc_store t2" "sc_journals t1 = sc_journals t2"
    by (auto simp: found_def split: sum.splits)
  then show ?case
  proof cases
    case 1
    then show ?thesis by (simp add: found_def)
  next
    case 2
    with Cons.IH [of t1 t2] show ?thesis by simp
  qed
qed

lemma scanJournals_found:
  "scanJournals cd pfx sfx files =
     (case found (scan_entries cd pfx sfx (snd (path_Split pfx))
              \<lparr>sc_store = [], sc_journals = [], sc_warnings = []\<rparr> files) of
        Inl pn \<Rightarrow> Some (Inl pn)
      | Inr (st, js) \<Rightarrow> sort_and_validate st js)"
  by (simp add: scanJournals_def found_def split: sum.splits)

text \<open>
  What the scanner does with a name it does not take.  A name that does not end with the
  suffix is skipped with no warning.  A name that ends with the suffix, is at least as
  long as the base name of the prefix and the suffix together, and whose part in between
  does not decode is skipped with a warning.  In both cases the journals found are those
  found without the name, wherever it stands among the names.
\<close>

lemma scan_skips_foreign_entry:
  assumes "\<not> HasSuffix file sfx \<or>
           (HasSuffix file sfx \<and> length (snd (path_Split pfx)) \<le> length file - length sfx \<and>
            DecodeJournalPath cd
              (drop (length (snd (path_Split pfx))) (take (length file - length sfx) file)) = Inl err)"
  shows "scan_entry cd pfx sfx (snd (path_Split pfx)) s file =
           Inr (if HasSuffix file sfx then s\<lparr>sc_warnings := sc_warnings s @ [file]\<rparr> else s) \<and>
         scanJournals cd pfx sfx (fs1 @ file # fs2) = scanJournals cd pfx sfx (fs1 @ fs2)"
proof -
  let ?bn = "snd (path_Split pfx)"
  have e: "scan_entry cd pfx sfx ?bn t file =
      Inr (if HasSuffix file sfx then t\<lparr>sc_warnings := sc_warnings t @ [file]\<rparr> else t)" for t
    using assms by (auto simp: scan_entry_def)
  let ?s0 = "\<lparr>sc_store = [], sc_journals = [], sc_warnings = []\<rparr>"
  have "found (scan_entries cd pfx sfx ?bn ?s0 (fs1 @ file # fs2))
      = found (scan_entries cd pfx sfx ?bn ?s0 (fs1 @ fs2))"
  proof (cases "scan_entries cd pfx sfx ?bn ?s0 fs1")
    case (Inl pn)
    then show ?thesis by (simp add: scan_entries_append)
  next
    case (Inr t)
    have "found (scan_entries cd pfx sfx ?bn
            (if HasSuffix file sfx then t\<lparr>sc_warnings := sc_warnings t @ [file]\<rparr> else t) fs2)
          = found (scan_entries cd pfx sfx ?bn t fs2)"
      by (rule scan_entries_found) simp_all
    with Inr show ?thesis by (simp add: scan_entries_append e)
  qed
  then have "scanJournals cd pfx sfx (fs1 @ file # fs2) = scanJournals cd pfx sfx (fs1 @ fs2)"
    by (simp only: scanJournals_found)
  with e [of s] show ?thesis by simp
qed

lemma scan_entries_panic:
  "scan_entries cd pfx sfx bn s files = Inl pn \<Longrightarrow> pn = SliceOutOfRange"
proof (induction files arbitrary: s)
  case Nil
  then show ?case by simp
next
  case (Cons f files)
  show ?case
  proof (cases "scan_entry cd pfx sfx bn s f")
    case (Inl pn')
    then have "pn' = SliceOutOfRange"
      by (auto simp: scan_entry_def split: if_splits sum.splits)
    with Inl Cons.prems show ?thesis by simp
  next
    case (Inr s')
    with Cons.prems Cons.IH [of s'] show ?thesis by simp
  qed
qed

text \<open>
  Claim C5 fails on the code.  The scanner tests the suffix of a name, but neither its
  length nor its start, before it cuts the base name of the prefix off: for a name that
  ends with the suffix and is shorter than base name and suffix together, the lower
  bound of the slice expression is above its upper bound and the scan panics, wherever
  the name stands among the names of the directory and whatever else is there.
\<close>

theorem scan_panics_on_short_name:
  assumes "HasSuffix file sfx"
    and "length file - length sfx < length (snd (path_Split pfx))"
  shows "scan_entry cd pfx sfx (snd (path_Split pfx)) s file = Inl SliceOutOfRange \<and>
         scanJournals cd pfx sfx (fs1 @ file # fs2) = Some (Inl SliceOutOfRange)"
proof -
  let ?bn = "snd (path_Split pfx)"
  let ?s0 = "\<lparr>sc_store = [], sc_journals = [], sc_warnings = []\<rparr>"
  have e: "scan_entry cd pfx sfx ?bn t file = Inl SliceOutOfRange" for t
    using assms by (simp add: scan_entry_def)
  have "scan_entries cd pfx sfx ?bn ?s0 (fs1 @ file # fs2) = Inl SliceOutOfRange"
  proof (cases "scan_entries cd pfx sfx ?bn ?s0 fs1")
    case (Inl pn)
    with scan_entries_panic [OF Inl] show ?thesis
      by (simp add: scan_entries_append)
  next
    case (Inr t)
    then show ?thesis by (simp add: scan_entries_append e)
  qed
  then have "scanJournals cd pfx sfx (fs1 @ file # fs2) = Some (Inl SliceOutOfRange)"
    by (simp add: scanJournals_def)
  with e [of s] show ?thesis by simp
qed

theorem scan_panics_on_short_name_witness:
  "HasSuffix ''.log'' ''.log'' \<and>
   path_Split ''/tmp/j.'' = (''/tmp/'', ''j.'') \<and>
   length ''.log'' - length ''.log'' < length (snd (path_Split ''/tmp/j.'')) \<and>
   scan_entry demo_codec ''/tmp/j.'' ''.log'' (snd (path_Split ''/tmp/j.''))
     \<lparr>sc_store = [], sc_journals = [], sc_warnings = []\<rparr> ''.log'' = Inl SliceOutOfRange \<and>
   scanJournals demo_codec ''/tmp/j.'' ''.log'' ([''j.s.b1005.log''] @ ''.log'' # [''x.txt''])
     = Some (Inl SliceOutOfRange)"
proof -
  have a: "HasSuffix ''.log'' ''.log''"
    by (simp add: HasSuffix_def)
  have p: "path_Split ''/tmp/j.'' = (''/tmp/'', ''j.'')"
    by (simp add: path_Split_def)
  have b: "length ''.log'' - length ''.log'' < length (snd (path_Split ''/tmp/j.''))"
    by (simp add: p)
  from scan_panics_on_short_name [OF a b, of demo_codec
      "\<lparr>sc_store = [], sc_journals = [], sc_warnings = []\<rparr>" "[''j.s.b1005.log'']" "[''x.txt'']"]
    a p b
  show ?thesis by simp
qed


section \<open>The size check of \<open>Write\<close>\<close>

text \<open>
  Claim C7, as the code has it.  Let a writer be open, let position and size budget be
  non-negative and the record shorter than \<open>2^63\<close> bytes (so that the 64-bit subtraction
  of the source is the subtraction of the numbers), and let \<open>chunks.first\<close> point to a
  chunk object.  Of the path codec it is assumed that it returns the role \<open>Head\<close> it was
  asked for and that the name it gives the new head is not the name under which the
  previous head is sealed; of the previous head, that its file is on disk.  Then:
  \<^item> the test of \<open>Write\<close> is true exactly when position plus length exceeds the budget,
    in particular for every record longer than the budget;
  \<^item> when it is true and \<open>Write\<close> returns without error, a chunk object was made and is
    the newest of the list; its role is \<open>Head\<close>, its path is the one built from prefix,
    codec and suffix, no file had that name before and now the name denotes a new
    inode, which is the writer and holds exactly the record, and no other file changed:
    the record is whole in a chunk of its own.  The previous head is sealed: its role is
    \<open>Rest\<close>, its path the sealed one, its old name is gone, and the sealed name denotes its
    file unless the chunk has been reclaimed;
  \<^item> when it is true and \<open>Write\<close> returns an error, no file that existed before has
    changed: nothing of the record reached the previous head;
  \<^item> when it is false and \<open>Write\<close> returns without error, no chunk was made and the
    record was appended, whole, to the file of the writer.
\<close>

theorem write_rolls_over_before_writing:
  assumes wr: "writer (journal w) = Some wr"
    and pos: "0 \<le> sint (position (journal w))"
    and max: "0 \<le> sint (maxSize w)"
    and len: "length data < 2 ^ 63"
    and ptr: "\<forall>old. first_chunk w = Some old \<longrightarrow> old < length (store w)"
    and cdc: "info_Type (BuildJournalPath cd (key (journal w)) Head now rnd) = Head"
    and old_file: "\<forall>old. first_chunk w = Some old \<longrightarrow>
        names (disk w) (Path (store w ! old)) \<noteq> None \<and>
        sealed_path cd w old \<noteq> new_head_path cd now rnd w"
  shows "(needs_new_chunk data w \<longleftrightarrow>
            sint (maxSize w) < sint (position (journal w)) + int (length data)) \<and>
         (sint (maxSize w) < int (length data) \<longrightarrow> needs_new_chunk data w) \<and>
         (needs_new_chunk data w \<longrightarrow>
            (\<forall>w'. Write cd now rnd data w = Inr (None, w') \<longrightarrow>
               length (store w') = Suc (length (store w)) \<and>
               first_chunk w' = Some (length (store w)) \<and>
               writer (journal w') = Some (nhandle (disk w)) \<and>
               handles (disk w') (nhandle (disk w)) = Some (ninode (disk w)) \<and>
               contents (disk w') = (contents (disk w))(ninode (disk w) := data) \<and>
               position (journal w') = of_nat (length data) \<and>
               Type (store w' ! length (store w)) = Head \<and>
               Path (store w' ! length (store w)) = new_head_path cd now rnd w \<and>
               names (disk w) (new_head_path cd now rnd w) = None \<and>
               names (disk w') (new_head_path cd now rnd w) = Some (ninode (disk w)) \<and>
               (\<forall>old. first_chunk w = Some old \<longrightarrow>
                  Type (store w' ! old) = Rest \<and>
                  Path (store w' ! old) = sealed_path cd w old \<and>
                  (Path (store w ! old) \<noteq> sealed_path cd w old \<longrightarrow>
                     names (disk w') (Path (store w ! old)) = None) \<and>
                  (names (disk w') (sealed_path cd w old) = names (disk w) (Path (store w ! old)) \<or>
                   names (disk w') (sealed_path cd w old) = None)))) \<and>
         (needs_new_chunk data w \<longrightarrow>
            (\<forall>err w' i. Write cd now rnd data w = Inr (Some err, w') \<longrightarrow>
               i \<noteq> ninode (disk w) \<longrightarrow> contents (disk w') i = contents (disk w) i)) \<and>
         (\<not> needs_new_chunk data w \<longrightarrow>
            (\<forall>w'. Write cd now rnd data w = Inr (None, w') \<longrightarrow>
               store w' = store w \<and> chunks (journal w') = chunks (journal w) \<and>
               writer (journal w') = Some wr \<and>
               (\<exists>i. handles (disk w) wr = Some i \<and>
                  contents (disk w') = (contents (disk w))(i := contents (disk w) i @ data)) \<and>
               position (journal w') = position (journal w) + of_nat (length data)))"
proof (intro conjI impI allI)
  show a: "needs_new_chunk data w \<longleftrightarrow>
      sint (maxSize w) < sint (position (journal w)) + int (length data)"
    by (rule size_check [OF wr pos max len])
  show "needs_new_chunk data w" if "sint (maxSize w) < int (length data)"
    using that pos by (simp add: a)
next
  fix w'
  assume n: "needs_new_chunk data w" and ok: "Write cd now rnd data w = Inr (None, w')"
  from ok n obtain r where nc0: "newChunk cd now rnd w = Inr r"
    by (cases "newChunk cd now rnd w") (simp_all add: Write_def)
  obtain ec w1 where r: "r = (ec, w1)" by (cases r)
  from ok n nc0 r obtain c where nc: "newChunk cd now rnd w = Inr (Inr c, w1)"
    and ww: "write_to_writer data w1 = Inr (None, w')"
    by (cases ec) (simp_all add: Write_def)
  note N = newChunk_success [OF nc ptr]
  note Z = newChunk_sealed [OF nc ptr, folded new_head_path_def sealed_path_def]
  from write_to_writer_success [OF ww] obtain wr' i where
    W: "writer (journal w1) = Some wr'" "handles (disk w1) wr' = Some i"
      "contents (disk w') = (contents (disk w1))(i := contents (disk w1) i @ data)"
      "handles (disk w') = handles (disk w1)"
      "store w' = store w1" "chunks (journal w') = chunks (journal w1)"
      "writer (journal w') = writer (journal w1)"
      "position (journal w') = position (journal w1) + of_nat (length data)"
    by blast
  note Wn = write_to_writer_names [OF ww]
  from W(1) N(4) have wr': "wr' = nhandle (disk w)" by simp
  from W(2) N(7) wr wr' have i: "i = ninode (disk w)"
    by (auto split: if_splits)
  show "length (store w') = Suc (length (store w))" using W N by simp
  show "first_chunk w' = Some (length (store w))" using W N by simp
  show "writer (journal w') = Some (nhandle (disk w))" using W N by simp
  show "handles (disk w') (nhandle (disk w)) = Some (ninode (disk w))"
    using W N wr' i by simp
  show "contents (disk w') = (contents (disk w))(ninode (disk w) := data)"
    using W(3) N(6) i by simp
  show "position (journal w') = of_nat (length data)" using W N by simp
  show "Type (store w' ! length (store w)) = Head"
    using Z(2) cdc by (simp add: W(5))
  show "Path (store w' ! length (store w)) = new_head_path cd now rnd w"
    using Z(1) by (simp add: W(5))
  show fresh: "names (disk w) (new_head_path cd now rnd w) = None"
    by (rule Z(3))
  have sealed: "Type (store w' ! old) = Rest \<and>
        Path (store w' ! old) = sealed_path cd w old \<and>
        (Path (store w ! old) \<noteq> sealed_path cd w old \<longrightarrow>
           names (disk w') (Path (store w ! old)) = None) \<and>
        (names (disk w') (sealed_path cd w old) = names (disk w) (Path (store w ! old)) \<or>
         names (disk w') (sealed_path cd w old) = None) \<and>
        names (disk w') (new_head_path cd now rnd w) = Some (ninode (disk w))"
    if f: "first_chunk w = Some old" for old
  proof -
    from old_file f have ex: "names (disk w) (Path (store w ! old)) \<noteq> None"
      and df: "sealed_path cd w old \<noteq> new_head_path cd now rnd w" by simp_all
    from ex fresh have ne: "Path (store w ! old) \<noteq> new_head_path cd now rnd w" by auto
    from Z(5) [OF f] obtain j where
      t: "Type (store w1 ! old) = Rest" and p: "Path (store w1 ! old) = sealed_path cd w old"
      and j: "((names (disk w))(new_head_path cd now rnd w \<mapsto> ninode (disk w)))
                (Path (store w ! old)) = Some j"
      and nm: "names (disk w1) =
          (((names (disk w))(new_head_path cd now rnd w \<mapsto> ninode (disk w)))
             (Path (store w ! old) := None))(sealed_path cd w old \<mapsto> j) \<or>
        names (disk w1) =
          (((names (disk w))(new_head_path cd now rnd w \<mapsto> ninode (disk w)))
             (Path (store w ! old) := None))(sealed_path cd w old := None)"
      by blast
    from j ne have j': "names (disk w) (Path (store w ! old)) = Some j" by simp
    from nm show ?thesis
    proof
      assume "names (disk w1) =
          (((names (disk w))(new_head_path cd now rnd w \<mapsto> ninode (disk w)))
             (Path (store w ! old) := None))(sealed_path cd w old \<mapsto> j)"
      with t p j' ne df show ?thesis by (simp add: W(5) Wn)
    next
      assume "names (disk w1) =
          (((names (disk w))(new_head_path cd now rnd w \<mapsto> ninode (disk w)))
             (Path (store w ! old) := None))(sealed_path cd w old := None)"
      with t p j' ne df show ?thesis by (simp add: W(5) Wn)
    qed
  qed
  show "names (disk w') (new_head_path cd now rnd w) = Some (ninode (disk w))"
  proof (cases "first_chunk w")
    case None
    from Z(4) [OF None] show ?thesis by (simp add: Wn)
  next
    case (Some old)
    from sealed [OF Some] show ?thesis by simp
  qed
  fix old assume f: "first_chunk w = Some old"
  from sealed [OF f] show "Type (store w' ! old) = Rest" by simp
  from sealed [OF f] show "Path (store w' ! old) = sealed_path cd w old" by simp
  from sealed [OF f] show "names (disk w') (sealed_path cd w old) = names (disk w) (Path (store w ! old)) \<or>
     names (disk w') (sealed_path cd w old) = None" by simp
  assume "Path (store w ! old) \<noteq> sealed_path cd w old"
  with sealed [OF f] show "names (disk w') (Path (store w ! old)) = None" by simp
next
  fix err w' i
  assume "needs_new_chunk data w" and "Write cd now rnd data w = Inr (Some err, w')"
    and "i \<noteq> ninode (disk w)"
  then show "contents (disk w') i = contents (disk w) i"
    by (intro Write_rollover_contents [of data w cd now rnd "Some err" w' i]) simp_all
next
  fix w'
  assume n: "\<not> needs_new_chunk data w" and ok: "Write cd now rnd data w = Inr (None, w')"
  then have ww: "write_to_writer data w = Inr (None, w')"
    by (simp add: Write_def)
  from write_to_writer_success [OF ww] wr obtain i where
    W: "handles (disk w) wr = Some i"
      "contents (disk w') = (contents (disk w))(i := contents (disk w) i @ data)"
      "store w' = store w" "chunks (journal w') = chunks (journal w)"
      "writer (journal w') = writer (journal w)"
      "position (journal w') = position (journal w) + of_nat (length data)"
    by auto
  show "store w' = store w" by (rule W)
  show "chunks (journal w') = chunks (journal w)" by (rule W)
  show "writer (journal w') = Some wr" using W wr by simp
  show "\<exists>i. handles (disk w) wr = Some i \<and>
      contents (disk w') = (contents (disk w))(i := contents (disk w) i @ data)"
    using W by blast
  show "position (journal w') = position (journal w) + of_nat (length data)" by (rule W)
qed

theorem write_rolls_over_before_writing_witness:
  "writer (journal demo_one) = Some 0 \<and>
   0 \<le> sint (position (journal demo_one)) \<and> 0 \<le> sint (maxSize demo_one) \<and>
   length ''BBB'' < 2 ^ 63 \<and>
   first_chunk demo_one = Some 0 \<and> 0 < length (store demo_one) \<and>
   info_Type (BuildJournalPath demo_codec (key (journal demo_one)) Head 2 6) = Head \<and>
   names (disk demo_one) (Path (store demo_one ! 0)) \<noteq> None \<and>
   sealed_path demo_codec demo_one 0 = ''/tmp/j.s.q1005.log'' \<and>
   new_head_path demo_codec 2 6 demo_one = ''/tmp/j.s.b2006.log'' \<and>
   Path (store demo_one ! 0) = ''/tmp/j.s.b1005.log'' \<and>
   sint (maxSize demo_one) < sint (position (journal demo_one)) + int (length ''BBB'') \<and>
   needs_new_chunk ''BBB'' demo_one \<and>
   (case Write demo_codec 2 6 ''BBB'' demo_one of
      Inr (None, w') \<Rightarrow>
        length (store w') = 2 \<and> first_chunk w' = Some 1 \<and>
        writer (journal w') = Some 1 \<and> handles (disk w') 1 = Some 1 \<and>
        contents (disk w') = (contents (disk demo_one))(1 := ''BBB'') \<and>
        position (journal w') = 3 \<and>
        Type (store w' ! 1) = Head \<and> Path (store w' ! 1) = ''/tmp/j.s.b2006.log'' \<and>
        names (disk demo_one) ''/tmp/j.s.b2006.log'' = None \<and>
        names (disk w') ''/tmp/j.s.b2006.log'' = Some 1 \<and>
        Type (store w' ! 0) = Rest \<and> Path (store w' ! 0) = ''/tmp/j.s.q1005.log'' \<and>
        names (disk w') ''/tmp/j.s.b1005.log'' = None \<and>
        names (disk w') ''/tmp/j.s.q1005.log'' = Some 0
    | _ \<Rightarrow> False)"
proof -
  have a: "writer (journal demo_one) = Some 0"
    and b: "0 \<le> sint (position (journal demo_one))"
    and c: "0 \<le> sint (maxSize demo_one)"
    and e: "\<forall>old. first_chunk demo_one = Some old \<longrightarrow> old < length (store demo_one)"
    and f: "first_chunk demo_one = Some 0" "0 < length (store demo_one)"
    and g: "ninode (disk demo_one) = 1" "nhandle (disk demo_one) = 1"
      "length (store demo_one) = 1"
    and h: "names (disk demo_one) (Path (store demo_one ! 0)) = Some 0"
      "Path (store demo_one ! 0) = ''/tmp/j.s.b1005.log''"
    by (simp_all add: demo_one_def)
  have d: "length ''BBB'' < 2 ^ 63" by simp
  have k: "info_Type (BuildJournalPath demo_codec (key (journal demo_one)) Head 2 6) = Head"
    by (simp add: demo_defs Let_def)
  have sp: "sealed_path demo_codec demo_one 0 = ''/tmp/j.s.q1005.log''"
    by (simp add: sealed_path_def demo_one_def demo_defs Let_def)
  have np: "new_head_path demo_codec 2 6 demo_one = ''/tmp/j.s.b2006.log''"
    by (simp add: new_head_path_def demo_one_def demo_defs hex_8198 Let_def)
  have m: "\<forall>old. first_chunk demo_one = Some old \<longrightarrow>
        names (disk demo_one) (Path (store demo_one ! old)) \<noteq> None \<and>
        sealed_path demo_codec demo_one old \<noteq> new_head_path demo_codec 2 6 demo_one"
    using f h by (simp add: sp np)
  have n: "needs_new_chunk ''BBB'' demo_one"
    by (simp add: needs_new_chunk_def demo_one_def)
  have "\<exists>w'. Write demo_codec 2 6 ''BBB'' demo_one = Inr (None, w') \<and>
      names (disk w') ''/tmp/j.s.q1005.log'' = Some 0"
    by (simp add: journal_defs fs_defs st_defs demo_defs demo_one_def Let_def hex_8198
        deleteRef.simps)
  then obtain w' where w: "Write demo_codec 2 6 ''BBB'' demo_one = Inr (None, w')"
    and q: "names (disk w') ''/tmp/j.s.q1005.log'' = Some 0" by blast
  from write_rolls_over_before_writing [OF a b c d e k m] n w
  have "length (store w') = 2 \<and> first_chunk w' = Some 1 \<and>
        writer (journal w') = Some 1 \<and> handles (disk w') 1 = Some 1 \<and>
        contents (disk w') = (contents (disk demo_one))(1 := ''BBB'') \<and>
        position (journal w') = 3 \<and>
        Type (store w' ! 1) = Head \<and> Path (store w' ! 1) = ''/tmp/j.s.b2006.log'' \<and>
        names (disk demo_one) ''/tmp/j.s.b2006.log'' = None \<and>
        names (disk w') ''/tmp/j.s.b2006.log'' = Some 1 \<and>
        Type (store w' ! 0) = Rest \<and> Path (store w' ! 0) = ''/tmp/j.s.q1005.log'' \<and>
        names (disk w') ''/tmp/j.s.b1005.log'' = None"
    by (simp add: g f sp np h(2))
  moreover have "sint (maxSize demo_one) < sint (position (journal demo_one)) + int (length ''BBB'')"
    by (simp add: demo_one_def)
  ultimately show ?thesis
    using a b c d f n k h sp np q by (simp add: w)
qed

text \<open>
  The claim as stated fails when the subtraction overflows.  With the size budget
  \<open>-2^63\<close> and the position 3, position plus length is far above the budget, but
  \<open>maxSize - position\<close> wraps around to \<open>2^63 - 3\<close>, which is not below the length: a
  writer is open, no chunk is made and the record is appended to the file of the head.
\<close>

theorem write_size_check_counterexample:
  "writer (journal demo_one_min) = Some 0 \<and>
   sint (maxSize demo_one_min) = - (2 ^ 63) \<and>
   sint (position (journal demo_one_min)) = 3 \<and>
   sint (maxSize demo_one_min) < sint (position (journal demo_one_min)) + int (length ''BBB'') \<and>
   \<not> needs_new_chunk ''BBB'' demo_one_min \<and>
   (case Write demo_codec 2 6 ''BBB'' demo_one_min of
      Inr (None, w') \<Rightarrow>
        store w' = store demo_one_min \<and> chunks (journal w') = chunks (journal demo_one_min) \<and>
        names (disk w') = names (disk demo_one_min) \<and>
        contents (disk w') 0 = ''AAABBB''
    | _ \<Rightarrow> False)"
  by (simp add: demo_one_min_def demo_one_def needs_new_chunk_def Write_def write_to_writer_def
      file_Write_def)

section \<open>Linked chunks and their files\<close>

text \<open>
  The group that is made for \<open>/tmp/j.*.log\<close> in the shared directory: the scanner cuts
  the length of the base name \<open>j.\<close> off the name \<open>k.s.q1005.log\<close> without comparing, decodes
  the rest and links a chunk of the journal \<open>s\<close> under a path put together from its own
  prefix.
\<close>

lemma phantom_scan:
  "scanJournals demo_codec ''/tmp/j.'' ''.log'' [''k.s.q1005.log'', ''j.s.b2006.log'']
   = Some (Inr (Inr
       ([\<lparr>head_next = None, head_prev = Some 1, Path = ''/tmp/j.s.q1005.log'', Type = Rest,
          TSuffix = ''1005'', Timestamp = 4101, UniqueId = ''1005'', refcount = 1\<rparr>,
         \<lparr>head_next = Some 0, head_prev = None, Path = ''/tmp/j.s.b2006.log'', Type = Head,
          TSuffix = ''2006'', Timestamp = 8198, UniqueId = ''2006'', refcount = 1\<rparr>],
        [(''s'', \<lparr>key = ''s'', chunks = \<lparr>dq_first = Some 1, dq_last = Some 0, dq_count = 2\<rparr>,
           writer = None, position = 0, newChunkListeners = [], flushListeners = []\<rparr>)])))"
  by (simp add: scan_defs)

lemma phantom_group:
  "GetJournalGroup demo_codec demo_factory ''/tmp/j.*.log'' 0
     [''k.s.q1005.log'', ''j.s.b2006.log''] shared_dir
   = Some (Inr (Created
       \<lparr>g_store = store demo_phantom, g_disk = disk demo_phantom,
        g_journals = [(''s'', journal demo_phantom)], g_maxSize = 4,
        g_pathPrefix = ''/tmp/j.'', g_pathSuffix = ''.log'', g_pluginInstance = 0\<rparr>
       \<lparr>paths = [(''/tmp/j.*.log'', 0)], defaultPathSuffix = ''.log'', f_maxSize = 4\<rparr>))"
  by (simp add: GetJournalGroup_def demo_factory_def split_path_def phantom_scan shared_dir_def
      fs_defs demo_phantom_def)

lemma shared_dir_listing:
  "lists_directory shared_dir ''/tmp/'' [''k.s.q1005.log'', ''j.s.b2006.log'']"
  by (auto simp: lists_directory_def shared_dir_def split: if_splits)


text \<open>
  Claim C4 fails on the code.  Right after the group has been made, the oldest chunk of
  the list of the journal \<open>s\<close> has the path \<open>/tmp/j.s.q1005.log\<close>, and there is no such file:
  the file that was scanned is \<open>/tmp/k.s.q1005.log\<close>.
\<close>

theorem scan_links_chunk_without_file:
  "(case GetJournalGroup demo_codec demo_factory ''/tmp/j.*.log'' 0
           [''k.s.q1005.log'', ''j.s.b2006.log''] shared_dir of
      Some (Inr (Created g fac)) \<Rightarrow>
        (case world_of g (fst (GetFileJournal g ''s'')) of w \<Rightarrow>
           w = demo_phantom \<and>
           first_chunk w = Some 1 \<and> head_next (store w ! 1) = Some 0 \<and>
           head_next (store w ! 0) = None \<and> last_chunk w = Some 0 \<and>
           Path (store w ! 0) = ''/tmp/j.s.q1005.log'' \<and>
           names (disk w) (Path (store w ! 0)) = None \<and>
           names (disk w) ''/tmp/k.s.q1005.log'' = Some 0)
    | _ \<Rightarrow> False)"
  unfolding phantom_group
  by (simp add: world_of_def GetFileJournal_def demo_phantom_def shared_dir_def)


section \<open>\<open>Purge\<close> twice\<close>

text \<open>
  When the invariants hold (the list is well linked, every linked chunk has a count of at
  least one and a file of its own on disk), \<open>deleteRef\<close> returns without error, and a
  second \<open>Purge\<close> leaves the state of the first as it is.
\<close>

lemma sint_above_one:
  fixes x :: "32 word"
  assumes "1 \<le> sint x" and "x \<noteq> 1"
  shows "1 < sint x"
proof (rule ccontr)
  assume "\<not> 1 < sint x"
  with assms have "sint x = 1" by simp
  then have "word_of_int (sint x) = (1 :: 32 word)" by simp
  then have "x = 1" by simp
  with assms show False by simp
qed

lemma deleteRef_keeps:
  assumes "c < length (store w)"
    and "refcount (store w ! c) - 1 \<noteq> 0"
    and "\<not> sint (refcount (store w ! c) - 1) < 0"
  shows "deleteRef w c = Inr (None, False, add_refcount w c (- 1))"
  using assms by (subst deleteRef.simps) (simp add: refcount_add_refcount)

lemma cascade:
  assumes "well_linked w (ys @ c # zs)"
    and "\<forall>y \<in> set (ys @ [c]). 1 \<le> sint (refcount (store w ! y)) \<and>
           names (disk w) (Path (store w ! y)) \<noteq> None"
    and "distinct (map (\<lambda>y. Path (store w ! y)) (ys @ [c]))"
  shows "\<exists>d w' ys'. deleteRef w c = Inr (None, d, w') \<and> cascaded w ys c zs d w' ys'"
  using assms
proof (induction ys arbitrary: w c zs rule: rev_induct)
  case Nil
  note wl = Nil.prems(1)
  from well_linked_neighbours [of w "[]" c zs] wl
  have cl: "c < length (store w)" and hp: "head_prev (store w ! c) = None" by simp_all
  from Nil.prems(2) have rc: "1 \<le> sint (refcount (store w ! c))"
    and fl: "names (disk w) (Path (store w ! c)) \<noteq> None" by simp_all
  show ?case
  proof (cases "refcount (store w ! c) = 1")
    case False
    with rc have h: "1 < sint (refcount (store w ! c))" by (rule sint_above_one)
    have "0 < sint (refcount (store w ! c) - 1)" using h by (rule held_not_last)
    with deleteRef_held [OF cl h] wl fl cl show ?thesis
      by (auto simp: cascaded_def refcount_add_refcount)
  next
    case True
    from fl obtain i where i: "names (disk w) (Path (store w ! c)) = Some i" by auto
    let ?d = "(disk w)\<lparr>names := (names (disk w))(Path (store w ! c) := None)\<rparr>"
    let ?w' = "unlink_chunk (add_refcount w c (- 1)\<lparr>disk := ?d\<rparr>) c"
    have "deleteRef w c = Inr (None, True, ?w')"
      using deleteRef_last_reference_newest [OF cl True hp] i
      by (simp add: remove_and_unlink_def os_Remove_def)
    moreover have "well_linked ?w' ([] @ zs)"
      using wl by (intro unlink_well_linked) simp
    ultimately show ?thesis
      by (auto simp: cascaded_def)
  qed
next
  case (snoc p ys0)
  note wl = snoc.prems(1)
  from wl have wl': "well_linked w ((ys0 @ [p]) @ c # zs)" by simp
  from well_linked_neighbours [OF wl']
  have cl: "c < length (store w)" and hp: "head_prev (store w ! c) = Some p" by simp_all
  from snoc.prems(2) have rc: "1 \<le> sint (refcount (store w ! c))"
    and fl: "names (disk w) (Path (store w ! c)) \<noteq> None" by simp_all
  from wl have pc: "p \<noteq> c" "c \<notin> set ys0" by (auto simp: well_linked_def)
  show ?case
  proof (cases "refcount (store w ! c) = 1")
    case False
    with rc have h: "1 < sint (refcount (store w ! c))" by (rule sint_above_one)
    have "0 < sint (refcount (store w ! c) - 1)" using h by (rule held_not_last)
    with deleteRef_held [OF cl h] wl snoc.prems(2) cl pc show ?thesis
      by (auto simp: cascaded_def refcount_add_refcount)
  next
    case True
    let ?w1 = "add_refcount w c (- 1)"
    have a1: "well_linked ?w1 (ys0 @ p # (c # zs))" using wl by simp
    have a2: "\<forall>y \<in> set (ys0 @ [p]). 1 \<le> sint (refcount (store ?w1 ! y)) \<and>
           names (disk ?w1) (Path (store ?w1 ! y)) \<noteq> None"
      using snoc.prems(2) pc by (auto simp: refcount_add_refcount)
    have a3: "distinct (map (\<lambda>y. Path (store ?w1 ! y)) (ys0 @ [p]))"
      using snoc.prems(3) by simp
    from snoc.IH [OF a1 a2 a3] obtain d' w2 ys' where
      dr: "deleteRef ?w1 p = Inr (None, d', w2)" and cs: "cascaded ?w1 ys0 p (c # zs) d' w2 ys'"
      by blast
    let ?A = "ys' @ (if d' then [] else [p])"
    from cs have wl2: "well_linked w2 (?A @ c # zs)"
      and pre: "\<exists>rs. ys0 = ys' @ rs" and nd: "\<not> d' \<longrightarrow> ys' = ys0"
      and ok2: "\<forall>y \<in> set ?A. 1 \<le> sint (refcount (store w2 ! y)) \<and>
          names (disk w2) (Path (store w2 ! y)) \<noteq> None"
      and pth: "\<And>x. Path (store w2 ! x) = Path (store w ! x)"
      and nm: "\<And>q. q \<notin> (\<lambda>y. Path (store w ! y)) ` set (ys0 @ [p]) \<Longrightarrow>
          names (disk w2) q = names (disk w) q"
      by (auto simp: cascaded_def)
    from snoc.prems(3) have cp: "Path (store w ! c) \<notin> (\<lambda>y. Path (store w ! y)) ` set (ys0 @ [p])"
      by auto
    from fl nm [OF cp] obtain i where i: "names (disk w2) (Path (store w2 ! c)) = Some i"
      by (auto simp: pth)
    let ?d = "(disk w2)\<lparr>names := (names (disk w2))(Path (store w ! c) := None)\<rparr>"
    let ?w3 = "unlink_chunk (w2\<lparr>disk := ?d\<rparr>) c"
    have res: "deleteRef w c = Inr (None, True, ?w3)"
      using deleteRef_last_reference [OF cl True hp] dr i
      by (simp add: remove_and_unlink_def os_Remove_def pth)
    have wl3: "well_linked ?w3 (?A @ zs)"
      using wl2 by (intro unlink_well_linked) simp
    have sub: "set ?A \<subseteq> set (ys0 @ [p])"
      using pre by auto
    have ok3: "\<forall>y \<in> set ?A. 1 \<le> sint (refcount (store ?w3 ! y)) \<and>
          names (disk ?w3) (Path (store ?w3 ! y)) \<noteq> None"
    proof
      fix y assume y: "y \<in> set ?A"
      with sub have "y \<in> set (ys0 @ [p])" by blast
      with cp have "Path (store w ! y) \<noteq> Path (store w ! c)"
        by (metis imageI)
      with ok2 y show "1 \<le> sint (refcount (store ?w3 ! y)) \<and>
          names (disk ?w3) (Path (store ?w3 ! y)) \<noteq> None"
        by (simp add: pth)
    qed
    have pre3: "\<exists>rs. ys0 @ [p] = ?A @ rs"
      using pre nd by (cases d') auto
    have nm3: "\<forall>q. q \<notin> (\<lambda>y. Path (store w ! y)) ` set ((ys0 @ [p]) @ [c]) \<longrightarrow>
        names (disk ?w3) q = names (disk w) q"
      using nm by auto
    have "cascaded w (ys0 @ [p]) c zs True ?w3 ?A"
      unfolding cascaded_def using wl3 pre3 ok3 nm3 pth by simp
    with res show ?thesis by blast
  qed
qed

lemma Purge_empty:
  assumes "last_chunk w = None"
  shows "Purge w = Inr (None, w)"
  using assms by (simp add: Purge_def)

lemma Purge_anchored:
  assumes l: "last_chunk w' = Some l" and ll: "l < length (store w')"
    and rc: "1 \<le> sint (refcount (store w' ! l))"
  shows "Purge (add_refcount w' l 1) = Inr (None, add_refcount w' l 1)"
proof -
  let ?w1 = "add_refcount w' l 1"
  have r: "refcount (store ?w1 ! l) - 1 = refcount (store w' ! l)"
    using ll by (simp add: refcount_add_refcount)
  from rc have nz: "refcount (store w' ! l) \<noteq> 0" by auto
  have "deleteRef ?w1 l = Inr (None, False, add_refcount ?w1 l (- 1))"
    using ll rc nz by (intro deleteRef_keeps) (simp_all add: r)
  then have "deleteRef ?w1 l = Inr (None, False, w')" by simp
  with l show ?thesis by (simp add: Purge_def)
qed

lemma purge_idempotent:
  assumes "journal_ok w cs"
  shows "\<exists>w1. Purge w = Inr (None, w1) \<and> Purge w1 = Inr (None, w1)"
proof (cases cs rule: rev_cases)
  case Nil
  with assms have "last_chunk w = None"
    by (simp add: journal_ok_def well_linked_def)
  then show ?thesis by (simp add: Purge_empty)
next
  case (snoc ys c)
  with assms have wl: "well_linked w (ys @ c # [])"
    and ok: "\<forall>y \<in> set (ys @ [c]). 1 \<le> sint (refcount (store w ! y)) \<and>
           names (disk w) (Path (store w ! y)) \<noteq> None"
    and di: "distinct (map (\<lambda>y. Path (store w ! y)) (ys @ [c]))"
    by (simp_all add: journal_ok_def)
  from well_linked_ends(2) [OF wl] have last: "last_chunk w = Some c" by simp
  from cascade [OF wl ok di] obtain d w' ys' where
    dr: "deleteRef w c = Inr (None, d, w')" and cs: "cascaded w ys c [] d w' ys'"
    by blast
  let ?L = "ys' @ (if d then [] else [c])"
  from cs have wl': "well_linked w' ?L"
    and ok': "\<forall>y \<in> set ?L. 1 \<le> sint (refcount (store w' ! y))"
    by (auto simp: cascaded_def)
  show ?thesis
  proof (cases "?L = []")
    case True
    with well_linked_ends(2) [OF wl'] have l': "last_chunk w' = None" by simp
    with last dr have "Purge w = Inr (None, w')" by (simp add: Purge_def)
    with Purge_empty [OF l'] show ?thesis by simp
  next
    case False
    with well_linked_ends(2) [OF wl'] have l': "last_chunk w' = Some (last ?L)" by simp
    from False have m: "last ?L \<in> set ?L" by (rule last_in_set)
    from well_linked_bound [OF wl' m] have ll: "last ?L < length (store w')" .
    from ok' m have rc: "1 \<le> sint (refcount (store w' ! last ?L))" by blast
    from last dr l' have "Purge w = Inr (None, add_refcount w' (last ?L) 1)"
      by (simp add: Purge_def)
    with Purge_anchored [OF l' ll rc] show ?thesis by simp
  qed
qed

text \<open>
  Claim C8 fails on the code.  In the journal made in the shared directory the oldest
  chunk has no file.  \<open>Purge\<close> returns the error of the removal; \<open>deleteRef\<close> has put the
  count of the oldest chunk back, but the count of the head, which the cascade had
  already lowered from 2 to 1, stays lowered.  The second \<open>Purge\<close> brings the count of the
  head to zero: its file is removed and it leaves the list, while it still is the file of
  the writer.  So the list, the counts and the files after two calls are not those after
  one.
\<close>

theorem purge_twice_differs:
  "(case GetJournalGroup demo_codec demo_factory ''/tmp/j.*.log'' 0
           [''k.s.q1005.log'', ''j.s.b2006.log''] shared_dir of
      Some (Inr (Created g fac)) \<Rightarrow>
        (case Purge (world_of g (fst (GetFileJournal g ''s''))) of
           Inr (Some err1, w1) \<Rightarrow>
             (case Purge w1 of
                Inr (Some err2, w2) \<Rightarrow>
                  err1 = ENOENT \<and> err2 = ENOENT \<and>
                  first_chunk w1 = Some 1 \<and> dq_count (chunks (journal w1)) = 2 \<and>
                  refcount (store w1 ! 1) = 1 \<and>
                  names (disk w1) ''/tmp/j.s.b2006.log'' = Some 1 \<and>
                  first_chunk w2 = Some 0 \<and> dq_count (chunks (journal w2)) = 1 \<and>
                  names (disk w2) ''/tmp/j.s.b2006.log'' = None \<and>
                  writer (journal w2) = Some 0 \<and> handles (disk w2) 0 = Some 1
              | _ \<Rightarrow> False)
         | _ \<Rightarrow> False)
    | _ \<Rightarrow> False)"
  unfolding phantom_group
  by (simp add: world_of_def GetFileJournal_def Purge_def demo_phantom_def
      shared_dir_def deleteRef.simps remove_and_unlink_def os_Remove_def
      unlink_chunk_def st_defs Let_def)

end
